theory Spec2Isabelle
  imports Main "HOL-Library.AList" "HOL-Library.Sublist"
begin

section \<open>Path arithmetic (posixpath, as used by \<open>Interceptra.__init__\<close>)\<close>

text \<open>
  Paths are Python \<open>str\<close> values, modelled as \<open>string\<close>. The four library functions
  that the constructor applies to the bundle path are written out after
  \<open>posixpath.py\<close>/\<open>genericpath.py\<close>.
\<close>

definition rfind :: "char \<Rightarrow> string \<Rightarrow> int" where
  \<comment> \<open>\<open>p.rfind(c)\<close>: the index of the last occurrence, \<open>-1\<close> when there is none\<close>
  "rfind c p =
     (if c \<in> set p
      then int (length p) - 1 - int (length (takeWhile (\<lambda>x. x \<noteq> c) (rev p)))
      else - 1)"

definition os_path_basename :: "string \<Rightarrow> string" where
  \<comment> \<open>\<open>i = p.rfind('/') + 1; return p[i:]\<close>\<close>
  "os_path_basename p = drop (nat (rfind CHR ''/'' p + 1)) p"

definition rstrip_sep :: "string \<Rightarrow> string" where
  \<comment> \<open>\<open>head.rstrip('/')\<close>\<close>
  "rstrip_sep h = rev (dropWhile (\<lambda>c. c = CHR ''/'') (rev h))"

definition os_path_dirname :: "string \<Rightarrow> string" where
  \<comment> \<open>\<open>head = p[:i]; if head and head != '/'*len(head): head = head.rstrip('/')\<close>\<close>
  "os_path_dirname p =
     (let head = take (nat (rfind CHR ''/'' p + 1)) p
      in if head \<noteq> [] \<and> head \<noteq> replicate (length head) CHR ''/''
         then rstrip_sep head else head)"

definition os_path_splitext :: "string \<Rightarrow> string \<times> string" where
  \<comment> \<open>\<open>genericpath._splitext(p, '/', None, '.')\<close>: the extension starts at the last dot
      of the last component, unless only dots precede it there\<close>
  "os_path_splitext p =
     (let sepIndex = rfind CHR ''/'' p;
          dotIndex = rfind CHR ''.'' p
      in if dotIndex > sepIndex \<and>
            list_ex (\<lambda>c. c \<noteq> CHR ''.'')
              (take (nat (dotIndex - (sepIndex + 1))) (drop (nat (sepIndex + 1)) p))
         then (take (nat dotIndex) p, drop (nat dotIndex) p)
         else (p, []))"

definition os_path_join :: "string \<Rightarrow> string \<Rightarrow> string" where
  \<comment> \<open>\<open>posixpath.join(a, b)\<close> with one component\<close>
  "os_path_join a b =
     (if b \<noteq> [] \<and> hd b = CHR ''/'' then b
      else if a = [] \<or> last a = CHR ''/'' then a @ b
      else a @ ''/'' @ b)"

section \<open>Python's \<open>int(str)\<close>\<close>

text \<open>
  The text of an XML attribute is a Python \<open>str\<close>: a list of Unicode code points.
\<close>

type_synonym ustr = "nat list"

text \<open>
  \<open>int(s)\<close> is \<open>PyLong_FromUnicodeObject(s, 10)\<close>. It first rewrites the text to ASCII
  (\<open>_PyUnicode_TransformDecimalAndSpaceToASCII\<close>): a code point below 127 is kept, a
  Unicode space above that becomes a blank, a Unicode decimal digit becomes the ASCII
  digit of its value, and anything else cannot be part of a number. The decimal digits
  are a table of the interpreter's Unicode database; \<open>to_ascii\<close> takes it as a parameter.
\<close>

definition unicode_space :: "nat \<Rightarrow> bool" where
  \<comment> \<open>\<open>Py_UNICODE_ISSPACE\<close> on the code points above 126\<close>
  "unicode_space c =
     (c \<in> set [0x85, 0xA0, 0x1680, 0x2028, 0x2029, 0x202F, 0x205F, 0x3000] \<or>
      (0x2000 \<le> c \<and> c \<le> 0x200A))"

definition to_ascii :: "(nat \<Rightarrow> nat option) \<Rightarrow> nat \<Rightarrow> nat option" where
  "to_ascii decimal c =
     (if c < 127 then Some c
      else if unicode_space c then Some 32
      else (case decimal c of
              None \<Rightarrow> None
            | Some d \<Rightarrow> if d < 10 then Some (48 + d) else None))"

text \<open>
  Then \<open>PyLong_FromString\<close> reads the ASCII text in base 10: white space (\<open>Py_ISSPACE\<close>),
  one optional sign, digits that single underscores may separate, white space, and
  nothing more. Since CPython 3.11 a number of more than \<open>sys.get_int_max_str_digits()\<close>
  digits is refused (the limit is 0, for none, or at least 640; the default is 4300).
  \<open>None\<close> stands for \<open>ValueError\<close>.
\<close>

definition ascii_space :: "nat \<Rightarrow> bool" where
  "ascii_space c = (c \<in> set [32, 9, 10, 11, 12, 13])"

definition is_digit :: "nat \<Rightarrow> bool" where
  "is_digit c = (48 \<le> c \<and> c \<le> 57)"

definition digit_or_underscore :: "nat \<Rightarrow> bool" where
  "digit_or_underscore c = (is_digit c \<or> c = 95)"

fun single_underscores :: "nat list \<Rightarrow> bool" where
  "single_underscores (c # d # cs) = (\<not> (c = 95 \<and> d = 95) \<and> single_underscores (d # cs))"
| "single_underscores cs = True"

definition horner :: "nat list \<Rightarrow> nat" where
  "horner ds = foldl (\<lambda>n d. 10 * n + d) 0 ds"

definition too_many_digits :: "nat \<Rightarrow> nat \<Rightarrow> bool" where
  "too_many_digits max_str_digits n = (640 < n \<and> 0 < max_str_digits \<and> max_str_digits < n)"

definition parse_number :: "nat \<Rightarrow> nat list \<Rightarrow> nat option" where
  \<comment> \<open>the text after the sign\<close>
  "parse_number max_str_digits cs =
     (let body = takeWhile digit_or_underscore cs;
          rest = dropWhile digit_or_underscore cs;
          ds = map (\<lambda>c. c - 48) (filter is_digit body)
      in if body = [] \<or> hd body = 95 \<or> last body = 95 \<or> \<not> single_underscores body then None
         else if dropWhile ascii_space rest \<noteq> [] then None
         else if too_many_digits max_str_digits (length ds) then None
         else Some (horner ds))"

definition py_int :: "(nat \<Rightarrow> nat option) \<Rightarrow> nat \<Rightarrow> ustr \<Rightarrow> int option" where
  "py_int decimal max_str_digits s =
     (case those (map (to_ascii decimal) s) of
        None \<Rightarrow> None
      | Some a \<Rightarrow>
          (case dropWhile ascii_space a of
             [] \<Rightarrow> None
           | c # cs \<Rightarrow>
               if c = 45 then map_option (\<lambda>n. - int n) (parse_number max_str_digits cs)
               else if c = 43 then map_option int (parse_number max_str_digits cs)
               else map_option int (parse_number max_str_digits (c # cs))))"

section \<open>The world: file system, external programs, XML library\<close>

datatype node = File string | Dir

type_synonym fs = "string \<Rightarrow> node option"

datatype error =
    CommandError int string string
  | FileNotFoundError string
  | NotADirectoryError string
  | IsADirectoryError string
  | FileExistsError string
  | PermissionError string
  | KeyError string
  | ParseError
  | ValueError string
  | TypeError

text \<open>An \<open>xml.etree.ElementTree.Element\<close>: tag, attribute dictionary (in insertion
  order), child elements.\<close>

datatype element = Element (tag: string) (attrib: "(string \<times> ustr) list") (children: "element list")

text \<open>
  A launched child process, as \<open>_run_command\<close> observes it: \<open>running p k\<close> says that the
  \<open>k\<close>-th call of \<open>poll()\<close> returns \<open>None\<close>; \<open>out_line\<close> and \<open>err_line\<close> are what the two
  \<open>readline()\<close> calls of that iteration return; \<open>out_rest\<close> and \<open>err_rest\<close> are what
  \<open>communicate()\<close> returns; \<open>fs_after\<close> is the file system the program leaves.
\<close>

record process =
  running :: "nat \<Rightarrow> bool"
  out_line :: "nat \<Rightarrow> string"
  err_line :: "nat \<Rightarrow> string"
  out_rest :: string
  err_rest :: string
  returncode :: int
  fs_after :: fs

datatype which_outcome = Found | CalledProcessError | WhichNotInstalled | WhichRaised error

text \<open>
  What \<open>json.loads\<close> makes of a tool table: \<open>Table\<close> for a value that \<open>dict.update\<close>
  takes as entries from strings to strings (the empty table for every falsy value), and
  \<open>Unusable err\<close> for any other value, \<open>err\<close> being the exception that \<open>dict.update\<close> or
  \<open>_check_dependencies\<close> raises on it.
\<close>

datatype tools_value = Table "(string \<times> string) list" | Unusable error

text \<open>
  Everything outside the program: what \<open>subprocess.Popen\<close> does with a command in a
  file system (\<open>Inl\<close>: it raises), which paths cannot be removed or written, the XML
  parser and serialiser, \<open>os.path.abspath\<close> and \<open>os.path.expanduser\<close> (they read the
  working directory and \<open>HOME\<close>), \<open>which\<close>, \<open>json.loads\<close> on a tool table (\<open>None\<close>: it
  raises), which files cannot be opened for reading, and the
  two settings of the interpreter that \<open>int\<close> reads: the decimal digits of its Unicode
  database (\<open>Py_UNICODE_TODECIMAL\<close>) and \<open>sys.get_int_max_str_digits()\<close>.
\<close>

record env =
  launch :: "string list \<Rightarrow> fs \<Rightarrow> error + process"
  undeletable :: "string \<Rightarrow> bool"
  unwritable :: "string \<Rightarrow> bool"
  xml_parse :: "string \<Rightarrow> element option"
  xml_tostring :: "element \<Rightarrow> string"
  abspath :: "string \<Rightarrow> string"
  expanduser :: "string \<Rightarrow> string"
  which :: "string \<Rightarrow> which_outcome"
  json_loads :: "string \<Rightarrow> tools_value option"
  unreadable :: "string \<Rightarrow> bool"
  unicode_decimal :: "nat \<Rightarrow> nat option"
  int_max_str_digits :: nat

text \<open>
  The trace records every attempt to run an external program (command, file system
  before, exit status, file system after) and the diagnostics that claims speak of.
  Standard output is taken to accept everything the program prints: a \<open>print\<close> that
  raises (a closed stream, an encoding that cannot represent the text) is outside the
  model, here and in every other function.
\<close>

datatype event =
    Ran "string list" fs int fs
  | LaunchFailed "string list" error
  | Warning string
  | Completed string

text \<open>The \<open>Interceptra\<close> object (its fields as \<open>__init__\<close> sets them), followed by the
  file system and the trace.\<close>

record state =
  verbose :: bool
  tool_paths :: "(string \<times> string) list"
  KEYSTORE :: string
  KEYPASS :: string
  STOREPASS :: string
  SIGALG :: string
  DIGESTALG :: string
  ALIAS :: string
  APKTOOL_JAR :: string
  keep_files :: bool
  apk :: string
  file_name :: string
  output_dir :: string
  patched_apk :: string
  zipaligned_apk :: string
  extraction_dir :: string
  compile_sdk :: "int option"
  fs :: fs
  trace :: "event list"

subsection \<open>File-system primitives\<close>

definition os_path_exists :: "fs \<Rightarrow> string \<Rightarrow> bool" where
  "os_path_exists f p = (f p \<noteq> None)"

definition os_path_isfile :: "fs \<Rightarrow> string \<Rightarrow> bool" where
  "os_path_isfile f p = (case f p of Some (File c) \<Rightarrow> True | _ \<Rightarrow> False)"

definition os_path_getsize :: "fs \<Rightarrow> string \<Rightarrow> error + nat" where
  "os_path_getsize f p =
     (case f p of None \<Rightarrow> Inl (FileNotFoundError p)
      | Some (File c) \<Rightarrow> Inr (length c)
      | Some Dir \<Rightarrow> Inr 0)"

definition under :: "string \<Rightarrow> string \<Rightarrow> bool" where
  \<comment> \<open>\<open>q\<close> lies inside directory \<open>d\<close>\<close>
  "under d q = (take (length d + 1) q = d @ ''/'')"

definition shutil_rmtree :: "env \<Rightarrow> string \<Rightarrow> fs \<Rightarrow> error + fs" where
  "shutil_rmtree e p f =
     (case f p of None \<Rightarrow> Inl (FileNotFoundError p)
      | Some (File c) \<Rightarrow> Inl (NotADirectoryError p)
      | Some Dir \<Rightarrow>
          if undeletable e p then Inl (PermissionError p)
          else Inr (\<lambda>q. if q = p \<or> under p q then None else f q))"

definition os_remove :: "env \<Rightarrow> string \<Rightarrow> fs \<Rightarrow> error + fs" where
  "os_remove e p f =
     (case f p of None \<Rightarrow> Inl (FileNotFoundError p)
      | Some Dir \<Rightarrow> Inl (IsADirectoryError p)
      | Some (File c) \<Rightarrow>
          if undeletable e p then Inl (PermissionError p) else Inr (f(p := None)))"

definition ancestors :: "string \<Rightarrow> string list" where
  \<comment> \<open>the proper prefixes of \<open>p\<close> that end just before a separator\<close>
  "ancestors p = map (\<lambda>i. take i p) (filter (\<lambda>i. p ! i = CHR ''/'') [1..<length p])"

definition os_makedirs :: "env \<Rightarrow> string \<Rightarrow> fs \<Rightarrow> error + fs" where
  \<comment> \<open>\<open>os.makedirs(p, exist_ok=True)\<close>\<close>
  "os_makedirs e p f =
     (if p = [] then Inl (FileNotFoundError p)
      else if list_ex (\<lambda>a. os_path_isfile f a) (ancestors p) then Inl (NotADirectoryError p)
      else if os_path_isfile f p then Inl (FileExistsError p)
      else if f p = None \<and> unwritable e p then Inl (PermissionError p)
      else Inr (\<lambda>q. if (q = p \<or> q \<in> set (ancestors p)) \<and> f q = None then Some Dir else f q))"

definition write_file :: "env \<Rightarrow> string \<Rightarrow> string \<Rightarrow> fs \<Rightarrow> error + fs" where
  \<comment> \<open>\<open>with open(p, "w") as h: h.write(c)\<close>\<close>
  "write_file e p c f =
     (if f p = Some Dir then Inl (IsADirectoryError p)
      else if unwritable e p then Inl (PermissionError p)
      else Inr (f(p \<mapsto> File c)))"

definition ElementTree_parse :: "env \<Rightarrow> string \<Rightarrow> fs \<Rightarrow> error + element" where
  \<comment> \<open>\<open>ElementTree.parse(p).getroot()\<close>\<close>
  "ElementTree_parse e p f =
     (case f p of None \<Rightarrow> Inl (FileNotFoundError p)
      | Some Dir \<Rightarrow> Inl (IsADirectoryError p)
      | Some (File c) \<Rightarrow>
          if unreadable e p then Inl (PermissionError p)
          else (case xml_parse e c of None \<Rightarrow> Inl ParseError | Some r \<Rightarrow> Inr r))"

definition dict_get :: "(string \<times> string) list \<Rightarrow> string \<Rightarrow> error + string" where
  \<comment> \<open>\<open>d[k]\<close>\<close>
  "dict_get d k = (case map_of d k of None \<Rightarrow> Inl (KeyError k) | Some v \<Rightarrow> Inr v)"

section \<open>The command runner (\<open>Interceptra._run_command\<close>)\<close>

datatype run_value = CommandResult int string string | Returned error

text \<open>
  The polling loop \<open>while process.poll() is None\<close>: each round reads one line from each
  pipe and keeps the non-empty ones. Nothing bounds the number of rounds, so the loop is
  a partial function: \<open>None\<close> is a child that never exits. (The spinner and the echo of
  the lines in verbose mode only print.)
\<close>

partial_function (option) poll_loop ::
  "process \<Rightarrow> nat \<Rightarrow> string list \<Rightarrow> string list \<Rightarrow> (string list \<times> string list) option" where
  "poll_loop p k stdout_lines stderr_lines =
     (if running p k
      then poll_loop p (Suc k)
             (if out_line p k \<noteq> [] then stdout_lines @ [out_line p k] else stdout_lines)
             (if err_line p k \<noteq> [] then stderr_lines @ [err_line p k] else stderr_lines)
      else Some (stdout_lines, stderr_lines))"

definition run_command_try ::
  "env \<Rightarrow> string list \<Rightarrow> bool \<Rightarrow> state \<Rightarrow> ((error + run_value) \<times> state) option" where
  \<comment> \<open>the body of the \<open>try\<close> block\<close>
  "run_command_try e command check s =
     (case launch e command (fs s) of
        Inl err \<Rightarrow> Some (Inl err, s\<lparr>trace := trace s @ [LaunchFailed command err]\<rparr>)
      | Inr p \<Rightarrow>
          (case poll_loop p 0 [] [] of
             None \<Rightarrow> None
           | Some (outs, errs) \<Rightarrow>
               let stdout_lines = (if out_rest p \<noteq> [] then outs @ [out_rest p] else outs);
                   stderr_lines = (if err_rest p \<noteq> [] then errs @ [err_rest p] else errs);
                   s' = s\<lparr>fs := fs_after p,
                          trace := trace s @ [Ran command (fs s) (returncode p) (fs_after p)]\<rparr>
               in if check \<and> returncode p \<noteq> 0
                  then Some (Inl (CommandError (returncode p) (concat stdout_lines)
                                    (concat stderr_lines)), s')
                  else Some (Inr (CommandResult (returncode p) (concat stdout_lines)
                                    (concat stderr_lines)), s')))"

definition run_command ::
  "env \<Rightarrow> string list \<Rightarrow> bool \<Rightarrow> state \<Rightarrow> ((error + run_value) \<times> state) option" where
  \<comment> \<open>\<open>except Exception as e: ... if check: raise; return e\<close>\<close>
  "run_command e command check s =
     (case run_command_try e command check s of
        None \<Rightarrow> None
      | Some (Inl err, s') \<Rightarrow> if check then Some (Inl err, s') else Some (Inr (Returned err), s')
      | Some (Inr r, s') \<Rightarrow> Some (Inr r, s'))"

section \<open>The stages of the pipeline\<close>

text \<open>
  A stage takes the state and returns \<open>None\<close> when it never returns, and otherwise the
  state it leaves together with \<open>Inl\<close> the exception it raises or \<open>Inr ()\<close>.
\<close>

type_synonym 'a result = "((error + 'a) \<times> state) option"

type_synonym stage_result = "unit result"

definition raise :: "error \<Rightarrow> state \<Rightarrow> 'a result" where
  "raise err s = Some (Inl err, s)"

definition done_stage :: "state \<Rightarrow> stage_result" where
  "done_stage s = Some (Inr (), s)"

definition run_stage :: "env \<Rightarrow> string list \<Rightarrow> state \<Rightarrow> stage_result" where
  \<comment> \<open>\<open>self._run_command(command, description)\<close>, its value dropped\<close>
  "run_stage e command s =
     (case run_command e command True s of
        None \<Rightarrow> None
      | Some (Inl err, s') \<Rightarrow> Some (Inl err, s')
      | Some (Inr r, s') \<Rightarrow> Some (Inr (), s'))"

definition return_value :: "'a \<Rightarrow> state \<Rightarrow> 'a result" where
  "return_value v s = Some (Inr v, s)"

definition then_stage :: "'a result \<Rightarrow> (state \<Rightarrow> 'b result) \<Rightarrow> 'b result" where
  \<comment> \<open>one statement after another: an exception skips what follows\<close>
  "then_stage r k =
     (case r of None \<Rightarrow> None
      | Some (Inl err, s') \<Rightarrow> Some (Inl err, s')
      | Some (Inr u, s') \<Rightarrow> k s')"

definition decompile_command :: "state \<Rightarrow> error + string list" where
  "decompile_command s =
     (case dict_get (tool_paths s) ''java'' of Inl err \<Rightarrow> Inl err
      | Inr java \<Rightarrow> Inr [java, ''-jar'', APKTOOL_JAR s, ''-f'', ''d'', apk s,
                         ''-o'', extraction_dir s])"

definition decompile_apk :: "env \<Rightarrow> state \<Rightarrow> stage_result" where
  "decompile_apk e s =
     (case (if os_path_exists (fs s) (extraction_dir s)
            then shutil_rmtree e (extraction_dir s) (fs s) else Inr (fs s)) of
        Inl err \<Rightarrow> raise err s
      | Inr f1 \<Rightarrow>
          let s1 = s\<lparr>fs := f1\<rparr> in
          (case os_path_getsize (fs s1) (apk s1) of
             Inl err \<Rightarrow> raise err s1
           | Inr file_size \<Rightarrow>
               (case decompile_command s1 of
                  Inl err \<Rightarrow> raise err s1
                | Inr command \<Rightarrow> run_stage e command s1)))"

definition network_file :: string where
  "network_file = concat
     [''<?xml version=\"1.0\" encoding=\"utf-8\"?>'', [CHR 0x0A],
      ''<network-security-config>'', [CHR 0x0A],
      ''    <base-config>'', [CHR 0x0A],
      ''        <trust-anchors>'', [CHR 0x0A],
      ''            <certificates src=\"system\" />'', [CHR 0x0A],
      ''            <certificates src=\"user\" />'', [CHR 0x0A],
      ''        </trust-anchors>'', [CHR 0x0A],
      ''    </base-config>'', [CHR 0x0A],
      ''    <debug-overrides>'', [CHR 0x0A],
      ''        <trust-anchors>'', [CHR 0x0A],
      ''            <certificates src=\"user\" />'', [CHR 0x0A],
      ''        </trust-anchors>'', [CHR 0x0A],
      ''    </debug-overrides>'', [CHR 0x0A],
      ''</network-security-config>'']"

definition add_network_file :: "env \<Rightarrow> state \<Rightarrow> stage_result" where
  "add_network_file e s =
     (let path = os_path_join (extraction_dir s) ''res/xml'' in
      case os_makedirs e path (fs s) of
        Inl err \<Rightarrow> raise err s
      | Inr f1 \<Rightarrow>
          let s1 = s\<lparr>fs := f1\<rparr>;
              file_path = os_path_join path ''network_security_config.xml'' in
          (case write_file e file_path network_file (fs s1) of
             Inl err \<Rightarrow> raise err s1
           | Inr f2 \<Rightarrow> done_stage (s1\<lparr>fs := f2\<rparr>)))"

definition android_ns :: string where
  "android_ns = ''{http://schemas.android.com/apk/res/android}''"

fun set_first_application :: "element list \<Rightarrow> element list option" where
  \<comment> \<open>\<open>root.find("application")\<close> followed by \<open>application.set(...)\<close> on the child found\<close>
  "set_first_application [] = None"
| "set_first_application (c # cs) =
     (if tag c = ''application''
      then Some (Element (tag c)
                   (AList.update (android_ns @ ''networkSecurityConfig'')
                      (map of_char ''@xml/network_security_config'') (attrib c))
                   (children c) # cs)
      else map_option ((#) c) (set_first_application cs))"

definition add_network_attribute_to_manifest :: "env \<Rightarrow> state \<Rightarrow> stage_result" where
  "add_network_attribute_to_manifest e s =
     (let xml_path = os_path_join (extraction_dir s) ''AndroidManifest.xml'' in
      if \<not> os_path_isfile (fs s) xml_path then raise (FileNotFoundError xml_path) s
      else
        (case ElementTree_parse e xml_path (fs s) of
           Inl err \<Rightarrow> raise err s
         | Inr root \<Rightarrow>
             (case set_first_application (children root) of
                None \<Rightarrow> raise (ValueError ''application element not found in AndroidManifest.xml'') s
              | Some cs \<Rightarrow>
                  (case write_file e xml_path
                          (''<?xml version=\"1.0\" encoding=\"utf-8\" standalone=\"no\"?>'' @
                           xml_tostring e (Element (tag root) (attrib root) cs)) (fs s) of
                     Inl err \<Rightarrow> raise err s
                   | Inr f1 \<Rightarrow> done_stage (s\<lparr>fs := f1\<rparr>)))))"

definition check_compile_sdk_version_try :: "env \<Rightarrow> state \<Rightarrow> error + int" where
  \<comment> \<open>the body of the \<open>try\<close> block: the value it assigns to \<open>self.compile_sdk\<close>, or the
      exception it raises\<close>
  "check_compile_sdk_version_try e s =
     (let xml_path = os_path_join (extraction_dir s) ''AndroidManifest.xml'' in
      case ElementTree_parse e xml_path (fs s) of
        Inl err \<Rightarrow> Inl err
      | Inr root \<Rightarrow>
          (case map_of (attrib root) (android_ns @ ''compileSdkVersion'') of
             Some v \<Rightarrow>
               (case py_int (unicode_decimal e) (int_max_str_digits e) v of
                  None \<Rightarrow> Inl (ValueError ''invalid literal for int() with base 10'')
                | Some n \<Rightarrow> Inr n)
           | None \<Rightarrow> Inr 30))"

definition check_compile_sdk_version :: "env \<Rightarrow> state \<Rightarrow> stage_result" where
  \<comment> \<open>\<open>except Exception: self.compile_sdk = 30\<close>\<close>
  "check_compile_sdk_version e s =
     (case check_compile_sdk_version_try e s of
        Inl err \<Rightarrow> done_stage (s\<lparr>compile_sdk := Some 30\<rparr>)
      | Inr n \<Rightarrow> done_stage (s\<lparr>compile_sdk := Some n\<rparr>))"

definition repackage_command :: "state \<Rightarrow> error + string list" where
  "repackage_command s =
     (case dict_get (tool_paths s) ''java'' of Inl err \<Rightarrow> Inl err
      | Inr java \<Rightarrow> Inr [java, ''-jar'', APKTOOL_JAR s, ''-f'', ''b'', extraction_dir s,
                         ''-o'', patched_apk s, ''--use-aapt2''])"

definition repackage_apk :: "env \<Rightarrow> state \<Rightarrow> stage_result" where
  "repackage_apk e s =
     (case repackage_command s of
        Inl err \<Rightarrow> raise err s
      | Inr command \<Rightarrow>
          then_stage (run_stage e command s)
            (\<lambda>s1. if \<not> os_path_exists (fs s1) (patched_apk s1)
                  then raise (FileNotFoundError (patched_apk s1)) s1
                  else done_stage s1))"

definition jarsign_command :: "state \<Rightarrow> error + string list" where
  "jarsign_command s =
     (case dict_get (tool_paths s) ''jarsigner'' of Inl err \<Rightarrow> Inl err
      | Inr jarsigner \<Rightarrow>
          Inr [jarsigner, ''-verbose'', ''-keystore'', KEYSTORE s, ''-keypass'', KEYPASS s,
               ''-storepass'', STOREPASS s, ''-sigalg'', SIGALG s, ''-digestalg'', DIGESTALG s,
               patched_apk s, ALIAS s])"

definition jarsign_apk :: "env \<Rightarrow> state \<Rightarrow> stage_result" where
  "jarsign_apk e s =
     (case os_path_getsize (fs s) (patched_apk s) of
        Inl err \<Rightarrow> raise err s
      | Inr apk_size \<Rightarrow>
          (case jarsign_command s of
             Inl err \<Rightarrow> raise err s
           | Inr command \<Rightarrow> run_stage e command s))"

definition apksign_command :: "state \<Rightarrow> error + string list" where
  "apksign_command s =
     (case dict_get (tool_paths s) ''apksigner'' of Inl err \<Rightarrow> Inl err
      | Inr apksigner \<Rightarrow>
          Inr [apksigner, ''sign'', ''--ks'', KEYSTORE s, ''--ks-key-alias'', ALIAS s,
               ''--ks-pass'', ''pass:'' @ STOREPASS s, zipaligned_apk s])"

definition apksign_apk :: "env \<Rightarrow> state \<Rightarrow> stage_result" where
  "apksign_apk e s =
     (case os_path_getsize (fs s) (zipaligned_apk s) of
        Inl err \<Rightarrow> raise err s
      | Inr apk_size \<Rightarrow>
          (case apksign_command s of
             Inl err \<Rightarrow> raise err s
           | Inr command \<Rightarrow> run_stage e command s))"

definition zipalign_command :: "state \<Rightarrow> error + string list" where
  "zipalign_command s =
     (case dict_get (tool_paths s) ''zipalign'' of Inl err \<Rightarrow> Inl err
      | Inr zipalign \<Rightarrow> Inr [zipalign, ''-p'', ''-f'', ''4'', patched_apk s, zipaligned_apk s])"

definition zipalign_apk :: "env \<Rightarrow> state \<Rightarrow> stage_result" where
  "zipalign_apk e s =
     (case os_makedirs e (os_path_dirname (zipaligned_apk s)) (fs s) of
        Inl err \<Rightarrow> raise err s
      | Inr f1 \<Rightarrow>
          let s1 = s\<lparr>fs := f1\<rparr> in
          (case os_path_getsize (fs s1) (patched_apk s1) of
             Inl err \<Rightarrow> raise err s1
           | Inr apk_size \<Rightarrow>
               (case zipalign_command s1 of
                  Inl err \<Rightarrow> raise err s1
                | Inr command \<Rightarrow>
                    then_stage (run_stage e command s1)
                      (\<lambda>s2. if \<not> os_path_exists (fs s2) (zipaligned_apk s2)
                            then raise (FileNotFoundError (zipaligned_apk s2)) s2
                            else done_stage s2))))"

section \<open>Cleanup and the pipeline (\<open>Interceptra.cut\<close>)\<close>

definition cleanup_files :: "env \<Rightarrow> state \<Rightarrow> state" where
  \<comment> \<open>both removals sit in \<open>try ... except Exception\<close>, which prints a warning\<close>
  "cleanup_files e s =
     (let s1 =
        (if os_path_exists (fs s) (extraction_dir s)
         then (case shutil_rmtree e (extraction_dir s) (fs s) of
                 Inl err \<Rightarrow> s\<lparr>trace := trace s @ [Warning ''Could not remove directory'']\<rparr>
               | Inr f1 \<Rightarrow> s\<lparr>fs := f1\<rparr>)
         else s)
      in if os_path_exists (fs s1) (patched_apk s1) \<and> patched_apk s1 \<noteq> zipaligned_apk s1
         then (case os_remove e (patched_apk s1) (fs s1) of
                 Inl err \<Rightarrow> s1\<lparr>trace := trace s1 @ [Warning ''Could not remove file'']\<rparr>
               | Inr f2 \<Rightarrow> s1\<lparr>fs := f2\<rparr>)
         else s1)"

definition sign_and_align :: "env \<Rightarrow> state \<Rightarrow> string result" where
  \<comment> \<open>\<open>if self.compile_sdk >= 30: ... else: ...\<close>; the value is \<open>final_apk\<close>\<close>
  "sign_and_align e s =
     (case compile_sdk s of
        None \<Rightarrow> raise TypeError s
      | Some v \<Rightarrow>
          if v \<ge> 30
          then then_stage (zipalign_apk e s)
                 (\<lambda>s1. then_stage (apksign_apk e s1) (\<lambda>s2. return_value (zipaligned_apk s2) s2))
          else then_stage (jarsign_apk e s)
                 (\<lambda>s1. then_stage (zipalign_apk e s1) (\<lambda>s2. return_value (zipaligned_apk s2) s2)))"

definition stages :: "env \<Rightarrow> state \<Rightarrow> string result" where
  \<comment> \<open>steps 1 to 4 of \<open>cut\<close>, up to the assignment of \<open>final_apk\<close>\<close>
  "stages e s =
     then_stage (decompile_apk e s)
       (\<lambda>s1. then_stage (add_network_file e s1)
         (\<lambda>s2. then_stage (add_network_attribute_to_manifest e s2)
           (\<lambda>s3. then_stage (check_compile_sdk_version e s3)
             (\<lambda>s4. then_stage (repackage_apk e s4)
               (\<lambda>s5. sign_and_align e s5)))))"

definition verify_output :: "env \<Rightarrow> string \<Rightarrow> state \<Rightarrow> bool result" where
  \<comment> \<open>\<open>if os.path.exists(final_apk): ... return True; else: ... return False\<close>\<close>
  "verify_output e final_apk s =
     (if os_path_exists (fs s) final_apk
      then let s1 = (if \<not> keep_files s then cleanup_files e s else s) in
           (case os_path_getsize (fs s1) final_apk of
              Inl err \<Rightarrow> raise err s1
            | Inr final_size \<Rightarrow> return_value True (s1\<lparr>trace := trace s1 @ [Completed final_apk]\<rparr>))
      else return_value False s)"

definition cut_try :: "env \<Rightarrow> state \<Rightarrow> bool result" where
  \<comment> \<open>the body of the \<open>try\<close> block of \<open>cut\<close>\<close>
  "cut_try e s =
     (case os_path_getsize (fs s) (apk s) of
        Inl err \<Rightarrow> raise err s
      | Inr apk_size \<Rightarrow>
          (case stages e s of
             None \<Rightarrow> None
           | Some (Inl err, s') \<Rightarrow> Some (Inl err, s')
           | Some (Inr final_apk, s') \<Rightarrow> verify_output e final_apk s'))"

definition cut :: "env \<Rightarrow> state \<Rightarrow> (bool \<times> state) option" where
  \<comment> \<open>\<open>None\<close>: \<open>cut\<close> never returns. There is no \<open>Inl\<close>: \<open>except Exception\<close> returns \<open>False\<close>\<close>
  "cut e s =
     (if \<not> os_path_isfile (fs s) (apk s) then Some (False, s)
      else (case cut_try e s of
              None \<Rightarrow> None
            | Some (Inl err, s') \<Rightarrow> Some (False, s')
            | Some (Inr b, s') \<Rightarrow> Some (b, s')))"

section \<open>Construction (\<open>Interceptra.__init__\<close>)\<close>

definition default_tool_paths :: "(string \<times> string) list" where
  "default_tool_paths =
     [(''apktool'', ''apktool_2.11.0.jar''), (''keystore'', ''debug.keystore''),
      (''java'', ''java''), (''zipalign'', ''zipalign''),
      (''jarsigner'', ''jarsigner''), (''apksigner'', ''apksigner'')]"

definition dict_update :: "(string \<times> string) list \<Rightarrow> (string \<times> string) list \<Rightarrow> (string \<times> string) list" where
  \<comment> \<open>\<open>d.update(other)\<close>\<close>
  "dict_update d other = foldl (\<lambda>acc (k, v). AList.update k v acc) d other"

fun check_tools :: "env \<Rightarrow> fs \<Rightarrow> (string \<times> string) list \<Rightarrow> string list \<Rightarrow> error + string list" where
  \<comment> \<open>the \<open>for tool, path in self.tool_paths.items()\<close> loop, collecting \<open>missing_tools\<close>\<close>
  "check_tools e f [] missing_tools = Inr missing_tools"
| "check_tools e f ((tool, path) # rest) missing_tools =
     (if tool \<in> set [''apktool'', ''keystore''] then check_tools e f rest missing_tools
      else if path \<noteq> [] \<and> hd path = CHR ''/''
      then (if \<not> os_path_exists f path
            then check_tools e f rest (missing_tools @ [tool @ '' at '' @ path])
            else check_tools e f rest missing_tools)
      else (case which e path of
              Found \<Rightarrow> check_tools e f rest missing_tools
            | CalledProcessError \<Rightarrow> check_tools e f rest (missing_tools @ [tool])
            | WhichNotInstalled \<Rightarrow> check_tools e f rest (missing_tools @ [tool])
            | WhichRaised err \<Rightarrow> Inl err))"

definition check_dependencies :: "env \<Rightarrow> state \<Rightarrow> error + state" where
  "check_dependencies e s =
     (let s1 = (if \<not> os_path_exists (fs s) (APKTOOL_JAR s)
                then s\<lparr>trace := trace s @ [Warning (APKTOOL_JAR s @ '' not found in current directory'')]\<rparr>
                else s);
          s2 = (if \<not> os_path_exists (fs s1) (KEYSTORE s1)
                then s1\<lparr>trace := trace s1 @ [Warning (KEYSTORE s1 @ '' not found in current directory'')]\<rparr>
                else s1)
      in case check_tools e (fs s2) (tool_paths s2) [] of
           Inl err \<Rightarrow> Inl err
         | Inr missing_tools \<Rightarrow>
             Inr (if missing_tools \<noteq> []
                  then s2\<lparr>trace := trace s2 @ [Warning ''The following tools were not found'']\<rparr>
                  else s2))"

definition Interceptra_init ::
  "env \<Rightarrow> string \<Rightarrow> bool \<Rightarrow> tools_value option \<Rightarrow> bool \<Rightarrow> fs \<Rightarrow> event list
     \<Rightarrow> error + state" where
  \<comment> \<open>\<open>Interceptra(apk, verbose, tool_paths, keep_files)\<close> in a world with file system \<open>f\<close>\<close>
  "Interceptra_init e apk_arg verbose_arg tool_paths_arg keep_files_arg f tr =
     (case tool_paths_arg of
        Some (Unusable err) \<Rightarrow> Inl err
      | _ \<Rightarrow>
      let tp = (case tool_paths_arg of
                  Some (Table t) \<Rightarrow> if t \<noteq> [] then dict_update default_tool_paths t
                                    else default_tool_paths
                | _ \<Rightarrow> default_tool_paths) in
      case dict_get tp ''keystore'' of Inl err \<Rightarrow> Inl err
      | Inr keystore \<Rightarrow>
      (case dict_get tp ''apktool'' of Inl err \<Rightarrow> Inl err
       | Inr apktool \<Rightarrow>
         let a = abspath e (expanduser e apk_arg);
             fname = fst (os_path_splitext (os_path_basename a));
             out = os_path_dirname a
         in check_dependencies e
              \<lparr>verbose = verbose_arg, tool_paths = tp, KEYSTORE = keystore,
               KEYPASS = ''android'', STOREPASS = ''android'', SIGALG = ''SHA1withRSA'',
               DIGESTALG = ''SHA1'', ALIAS = ''androiddebugkey'', APKTOOL_JAR = apktool,
               keep_files = keep_files_arg, apk = a, file_name = fname, output_dir = out,
               patched_apk = os_path_join out (fname @ ''_patched.apk''),
               zipaligned_apk = os_path_join out (fname @ ''_patched_zipaligned.apk''),
               extraction_dir = os_path_join (os_path_dirname a) fname,
               compile_sdk = None, fs = f, trace = tr\<rparr>))"

section \<open>The command line (\<open>interceptra.py\<close>)\<close>

text \<open>
  The command line as \<open>argparse\<close> reads it, one item per option it meets: the four
  declared options, \<open>-h\<close>/\<open>--help\<close> (added by \<open>ArgumentParser\<close>), a declared option whose
  value is missing, and anything that is not a declared option.
\<close>

datatype cli_arg =
    ApkOpt string | VerboseOpt | KeepFilesOpt | ToolsOpt string
  | HelpOpt | MissingValue string | Unrecognized string

record namespace =
  ns_apk :: "string option"
  ns_verbose :: bool
  ns_keep_files :: bool
  ns_tools :: "string option"
  ns_extras :: "string list"

record args =
  args_apk :: string
  args_verbose :: bool
  args_keep_files :: bool
  args_tools :: "string option"

fun consume_args :: "cli_arg list \<Rightarrow> namespace \<Rightarrow> int + namespace" where
  \<comment> \<open>\<open>Inl code\<close> is \<open>SystemExit(code)\<close>: help exits with 0, \<open>parser.error\<close> with 2\<close>
  "consume_args [] ns = Inr ns"
| "consume_args (ApkOpt v # xs) ns = consume_args xs (ns\<lparr>ns_apk := Some v\<rparr>)"
| "consume_args (VerboseOpt # xs) ns = consume_args xs (ns\<lparr>ns_verbose := True\<rparr>)"
| "consume_args (KeepFilesOpt # xs) ns = consume_args xs (ns\<lparr>ns_keep_files := True\<rparr>)"
| "consume_args (ToolsOpt v # xs) ns = consume_args xs (ns\<lparr>ns_tools := Some v\<rparr>)"
| "consume_args (HelpOpt # xs) ns = Inl 0"
| "consume_args (MissingValue opt # xs) ns = Inl 2"
| "consume_args (Unrecognized x # xs) ns = consume_args xs (ns\<lparr>ns_extras := ns_extras ns @ [x]\<rparr>)"

definition handle_args :: "cli_arg list \<Rightarrow> int + args" where
  \<comment> \<open>\<open>parser.parse_args()\<close> with \<open>--apk\<close> required, two \<open>store_true\<close> flags and
      \<open>--tools\<close> defaulting to \<open>None\<close>\<close>
  "handle_args argv =
     (case consume_args argv
             \<lparr>ns_apk = None, ns_verbose = False, ns_keep_files = False,
              ns_tools = None, ns_extras = []\<rparr> of
        Inl code \<Rightarrow> Inl code
      | Inr ns \<Rightarrow>
          (case ns_apk ns of
             None \<Rightarrow> Inl 2
           | Some a \<Rightarrow>
               if ns_extras ns \<noteq> [] then Inl 2
               else Inr \<lparr>args_apk = a, args_verbose = ns_verbose ns,
                         args_keep_files = ns_keep_files ns, args_tools = ns_tools ns\<rparr>))"

definition parse_tool_paths :: "env \<Rightarrow> string option \<Rightarrow> fs \<Rightarrow> tools_value option" where
  "parse_tool_paths e tools_json f =
     (case tools_json of
        None \<Rightarrow> None
      | Some t \<Rightarrow>
          if t = [] then None
          else if os_path_isfile f t
          then (case f t of
                  Some (File c) \<Rightarrow> if unreadable e t then None else json_loads e c
                | _ \<Rightarrow> None)
          else json_loads e t)"

definition main :: "env \<Rightarrow> cli_arg list \<Rightarrow> fs \<Rightarrow> int option" where
  \<comment> \<open>the exit status of the process: the value of \<open>main()\<close> handed to \<open>sys.exit\<close>, or the
      code of the \<open>SystemExit\<close> that \<open>handle_args\<close> raises; \<open>None\<close> when it never exits\<close>
  "main e argv f =
     (case handle_args argv of
        Inl code \<Rightarrow> Some code
      | Inr a \<Rightarrow>
          let apk_path = expanduser e (args_apk a) in
          if \<not> os_path_isfile f apk_path then Some 1
          else
            let tools = parse_tool_paths e (args_tools a) f in
            (case Interceptra_init e apk_path (args_verbose a) tools (args_keep_files a) f [] of
               Inl err \<Rightarrow> Some 1
             | Inr interceptor \<Rightarrow>
                 (case cut e interceptor of
                    None \<Rightarrow> None
                  | Some (success, s') \<Rightarrow> Some (if success then 0 else 1))))"

section \<open>Observations on traces\<close>

text \<open>The commands a run attempted, in order; an event that is not a command with a
  non-zero exit status; the post-conditions that the repack and align stages check; the
  fields of the object that no stage assigns.\<close>

fun attempts :: "event list \<Rightarrow> string list list" where
  "attempts [] = []"
| "attempts (Ran c f rc f' # es) = c # attempts es"
| "attempts (LaunchFailed c err # es) = c # attempts es"
| "attempts (Warning m # es) = attempts es"
| "attempts (Completed p # es) = attempts es"

fun quiet :: "event \<Rightarrow> bool" where
  "quiet (Ran c f rc f') = (rc = 0)"
| "quiet ev = True"

definition verified :: "state \<Rightarrow> event \<Rightarrow> bool" where
  "verified s ev =
     (case ev of
        Ran c f rc f' \<Rightarrow>
          (repackage_command s \<noteq> Inr c \<or> os_path_exists f' (patched_apk s)) \<and>
          (zipalign_command s \<noteq> Inr c \<or> os_path_exists f' (zipaligned_apk s))
      | _ \<Rightarrow> True)"

definition frame :: "state \<Rightarrow> state \<Rightarrow> bool" where
  "frame s s' =
     (verbose s' = verbose s \<and> tool_paths s' = tool_paths s \<and> KEYSTORE s' = KEYSTORE s \<and>
      KEYPASS s' = KEYPASS s \<and> STOREPASS s' = STOREPASS s \<and> SIGALG s' = SIGALG s \<and>
      DIGESTALG s' = DIGESTALG s \<and> ALIAS s' = ALIAS s \<and> APKTOOL_JAR s' = APKTOOL_JAR s \<and>
      keep_files s' = keep_files s \<and> apk s' = apk s \<and> file_name s' = file_name s \<and>
      output_dir s' = output_dir s \<and> patched_apk s' = patched_apk s \<and>
      zipaligned_apk s' = zipaligned_apk s \<and> extraction_dir s' = extraction_dir s)"

definition step_ok :: "(error + string list) list \<Rightarrow> state \<Rightarrow> error + 'a \<Rightarrow> state \<Rightarrow> bool" where
  "step_ok plan s r s' =
     (frame s s' \<and>
      (\<exists>evs. trace s' = trace s @ evs \<and>
         prefix (map Inr (attempts evs)) plan \<and>
         (\<not> isl r \<longrightarrow> map Inr (attempts evs) = plan \<and> list_all quiet evs \<and> list_all (verified s) evs) \<and>
         (isl r \<longrightarrow> list_all quiet evs \<or>
            (\<exists>pre c f rc. evs = pre @ [Ran c f rc (fs s')] \<and> rc \<noteq> 0 \<and> list_all quiet pre))))"


definition signing_strategy :: "state \<Rightarrow> int \<Rightarrow> (error + string list) list" where
  "signing_strategy s v =
     (if v \<ge> 30 then [zipalign_command s, apksign_command s]
      else [jarsign_command s, zipalign_command s])"

definition pipeline_plan :: "state \<Rightarrow> int \<Rightarrow> (error + string list) list" where
  "pipeline_plan s v = [decompile_command s, repackage_command s] @ signing_strategy s v"

definition stages_spec :: "state \<Rightarrow> error + string \<Rightarrow> state \<Rightarrow> bool" where
  "stages_spec s r s' =
     (((\<forall>v. step_ok (pipeline_plan s v) s r s') \<or>
       (\<exists>v. compile_sdk s' = Some v \<and> step_ok (pipeline_plan s v) s r s')) \<and>
      (\<forall>p. r = Inr p \<longrightarrow> p = zipaligned_apk s))"

definition cleared :: "state \<Rightarrow> fs \<Rightarrow> bool" where
  "cleared s f =
     (f (extraction_dir s) = None \<and>
      (\<forall>q. q \<noteq> extraction_dir s \<and> \<not> under (extraction_dir s) q \<longrightarrow> f q = fs s q) \<and>
      (os_path_exists (fs s) (extraction_dir s) \<longrightarrow> (\<forall>q. under (extraction_dir s) q \<longrightarrow> f q = None)))"

definition constructed :: "state \<Rightarrow> bool" where
  "constructed s =
     (file_name s = fst (os_path_splitext (os_path_basename (apk s))) \<and>
      output_dir s = os_path_dirname (apk s) \<and>
      patched_apk s = os_path_join (output_dir s) (file_name s @ ''_patched.apk'') \<and>
      zipaligned_apk s = os_path_join (output_dir s) (file_name s @ ''_patched_zipaligned.apk'') \<and>
      extraction_dir s = os_path_join (os_path_dirname (apk s)) (file_name s))"


definition processes_exit :: "env \<Rightarrow> bool" where
  "processes_exit e = (\<forall>c f p. launch e c f = Inr p \<longrightarrow> (\<exists>k. \<not> running p k))"

text \<open>The integer that a list of decimal digits denotes, most significant digit first.\<close>

definition decimal_value :: "nat list \<Rightarrow> nat" where
  "decimal_value ds = (\<Sum>i<length ds. ds ! i * 10 ^ (length ds - Suc i))"

section \<open>A concrete world\<close>

text \<open>
  A small world on which the pipeline can be run by evaluation: the bundle \<open>/w/app.apk\<close>,
  tools that exit at once with a given status and a given effect on the file system, an
  XML library that reads every manifest as one document with a given
  \<open>compileSdkVersion\<close>, and an interpreter whose limit on digits is 4300.
\<close>

definition demo_doc :: "ustr \<Rightarrow> element" where
  "demo_doc v = Element ''manifest'' [(android_ns @ ''compileSdkVersion'', v)]
                  [Element ''application'' [] []]"

definition demo_process :: "int \<Rightarrow> fs \<Rightarrow> process" where
  "demo_process rc f =
     \<lparr>running = (\<lambda>k. False), out_line = (\<lambda>k. []), err_line = (\<lambda>k. []),
      out_rest = [], err_rest = [], returncode = rc, fs_after = f\<rparr>"

definition demo_decimal :: "nat \<Rightarrow> nat option" where
  \<comment> \<open>the Arabic-Indic digits, U+0660 to U+0669\<close>
  "demo_decimal c = (if 0x660 \<le> c \<and> c \<le> 0x669 then Some (c - 0x660) else None)"

definition tool_env ::
  "(string list \<Rightarrow> int) \<Rightarrow> (string list \<Rightarrow> fs \<Rightarrow> fs) \<Rightarrow> bool \<Rightarrow> ustr \<Rightarrow> env" where
  "tool_env status effect locked v =
     \<lparr>launch = (\<lambda>c f. Inr (demo_process (status c) (effect c f))),
      undeletable = (\<lambda>p. locked), unwritable = (\<lambda>p. False),
      xml_parse = (\<lambda>c. Some (demo_doc v)), xml_tostring = (\<lambda>r. ''m''),
      abspath = (\<lambda>p. p), expanduser = (\<lambda>p. p), which = (\<lambda>p. Found),
      json_loads = (\<lambda>t. None), unreadable = (\<lambda>p. False), unicode_decimal = demo_decimal,
      int_max_str_digits = 4300\<rparr>"

definition unpack_effect :: "string list \<Rightarrow> fs \<Rightarrow> fs" where
  "unpack_effect c f =
     (if length c = 8 \<and> c ! 4 = ''d''
      then f(c ! 7 \<mapsto> Dir, c ! 7 @ ''/AndroidManifest.xml'' \<mapsto> File ''m'')
      else f)"

definition demo_effect :: "string list \<Rightarrow> fs \<Rightarrow> fs" where
  "demo_effect c f =
     (if length c = 8 \<and> c ! 4 = ''d''
      then f(c ! 7 \<mapsto> Dir, c ! 7 @ ''/AndroidManifest.xml'' \<mapsto> File ''m'')
      else if length c = 9 \<and> c ! 4 = ''b'' then f(c ! 7 \<mapsto> File ''apk'')
      else if length c = 6 then f(c ! 5 \<mapsto> File ''aligned'')
      else f)"

definition demo_env :: "ustr \<Rightarrow> env" where
  "demo_env v = tool_env (\<lambda>c. 0) demo_effect False v"

definition failing_env :: env where
  "failing_env = tool_env (\<lambda>c. 1) (\<lambda>c f. f) False [50, 57]"

definition idle_env :: env where
  "idle_env = tool_env (\<lambda>c. 0) (\<lambda>c f. f) False [50, 57]"

definition unpack_only_env :: env where
  "unpack_only_env = tool_env (\<lambda>c. 0) unpack_effect False [50, 57]"

definition repack_fails_env :: env where
  "repack_fails_env = tool_env (\<lambda>c. if c ! 4 = ''b'' then 1 else 0) unpack_effect False [50, 57]"


definition demo_fs :: fs where
  "demo_fs = [''/w'' \<mapsto> Dir, ''/w/app.apk'' \<mapsto> File ''PK'',
              ''apktool_2.11.0.jar'' \<mapsto> File ''jar'', ''debug.keystore'' \<mapsto> File ''ks'']"

definition stale_fs :: fs where
  "stale_fs = demo_fs(''/w/app'' \<mapsto> Dir, ''/w/app/old.txt'' \<mapsto> File ''stale'')"

definition demo_state :: state where
  "demo_state =
     \<lparr>verbose = False, tool_paths = default_tool_paths, KEYSTORE = ''debug.keystore'',
      KEYPASS = ''android'', STOREPASS = ''android'', SIGALG = ''SHA1withRSA'',
      DIGESTALG = ''SHA1'', ALIAS = ''androiddebugkey'', APKTOOL_JAR = ''apktool_2.11.0.jar'',
      keep_files = False, apk = ''/w/app.apk'', file_name = ''app'', output_dir = ''/w'',
      patched_apk = ''/w/app_patched.apk'',
      zipaligned_apk = ''/w/app_patched_zipaligned.apk'',
      extraction_dir = ''/w/app'',
      compile_sdk = None, fs = demo_fs, trace = []\<rparr>"

definition manifest_fs :: fs where
  "manifest_fs = demo_fs(''/w/app'' \<mapsto> Dir, ''/w/app/AndroidManifest.xml'' \<mapsto> File ''m'')"

section \<open>Lemmas on paths\<close>

lemma takeWhile_len_lt: "c \<in> set xs \<Longrightarrow> length (takeWhile (\<lambda>x. x \<noteq> c) xs) < length xs"
  by (induction xs) auto

lemma sep_index: "nat (rfind c p + 1) = length p - length (takeWhile (\<lambda>x. x \<noteq> c) (rev p))"
proof (cases "c \<in> set p")
  case False
  then have "takeWhile (\<lambda>x. x \<noteq> c) (rev p) = rev p" by (auto simp: takeWhile_eq_all_conv)
  then have "length (takeWhile (\<lambda>x. x \<noteq> c) (rev p)) = length p" by (metis length_rev)
  with False show ?thesis by (simp add: rfind_def)
next
  case True
  then have "length (takeWhile (\<lambda>x. x \<noteq> c) (rev p)) < length p"
    using takeWhile_len_lt[of c "rev p"] by simp
  with True show ?thesis by (simp add: rfind_def)
qed

lemma dropWhile_hd: "dropWhile P xs = [] \<or> \<not> P (hd (dropWhile P xs))"
  by (induction xs) auto

lemma split_last_sep:
  "\<exists>h t. p = h @ t \<and> CHR ''/'' \<notin> set t \<and> (h = [] \<or> last h = CHR ''/'') \<and> nat (rfind CHR ''/'' p + 1) = length h"
proof -
  let ?t = "rev (takeWhile (\<lambda>x. x \<noteq> CHR ''/'') (rev p))"
  let ?d = "dropWhile (\<lambda>x. x \<noteq> CHR ''/'') (rev p)"
  let ?h = "rev ?d"
  have "rev p = rev ?t @ ?d" by simp
  then have "rev (rev p) = rev (rev ?t @ ?d)" by (rule arg_cong)
  then have 1: "p = ?h @ ?t" by (simp only: rev_rev_ident rev_append)
  have 2: "CHR ''/'' \<notin> set ?t" by (auto dest: set_takeWhileD)
  have 3: "?h = [] \<or> last ?h = CHR ''/''"
    using dropWhile_hd[of "\<lambda>x. x \<noteq> CHR ''/''" "rev p"] by (auto simp: last_rev)
  have "length p = length ?h + length ?t" using 1 by (metis length_append)
  then have 4: "nat (rfind CHR ''/'' p + 1) = length ?h" by (simp add: sep_index)
  from 1 2 3 4 show ?thesis by blast
qed

lemma basename_no_sep: "CHR ''/'' \<notin> set (os_path_basename p)"
proof -
  obtain h t where *: "p = h @ t" "CHR ''/'' \<notin> set t" "nat (rfind CHR ''/'' p + 1) = length h"
    using split_last_sep by blast
  then show ?thesis by (simp add: os_path_basename_def)
qed

lemma splitext_fst_subset: "set (fst (os_path_splitext p)) \<subseteq> set p"
  by (auto simp: os_path_splitext_def Let_def dest: in_set_takeD)

lemma file_name_no_sep: "CHR ''/'' \<notin> set (fst (os_path_splitext (os_path_basename p)))"
  using splitext_fst_subset basename_no_sep by blast

lemma rstrip_sep_id: "h \<noteq> [] \<Longrightarrow> last h \<noteq> CHR ''/'' \<Longrightarrow> rstrip_sep h = h"
proof -
  assume "h \<noteq> []" "last h \<noteq> CHR ''/''"
  then have "rev h \<noteq> []" "hd (rev h) \<noteq> CHR ''/''" by (simp_all add: hd_rev)
  then have "dropWhile (\<lambda>c. c = CHR ''/'') (rev h) = rev h" by (cases "rev h") auto
  then show ?thesis by (simp add: rstrip_sep_def)
qed

lemma rstrip_sep_shape: "rstrip_sep h = [] \<or> last (rstrip_sep h) \<noteq> CHR ''/''"
  using dropWhile_hd[of "\<lambda>c. c = CHR ''/''" "rev h"] by (auto simp: rstrip_sep_def last_rev)

lemma rstrip_sep_snoc: "rstrip_sep (h @ ''/'') = rstrip_sep h"
  by (simp add: rstrip_sep_def)

lemma rstrip_all_sep: "h = replicate (length h) CHR ''/'' \<Longrightarrow> rstrip_sep h = []"
proof -
  assume a: "h = replicate (length h) CHR ''/''"
  have "\<forall>x \<in> set (rev h). x = CHR ''/''" by (subst a) simp
  then have "dropWhile (\<lambda>c. c = CHR ''/'') (rev h) = []" by simp
  then show ?thesis by (simp add: rstrip_sep_def)
qed

text \<open>The shape of a directory name: empty, only separators, or not ending in one.\<close>
lemma dirname_shape:
  "os_path_dirname p = [] \<or> os_path_dirname p = replicate (length (os_path_dirname p)) CHR ''/''
     \<or> last (os_path_dirname p) \<noteq> CHR ''/''"
proof -
  let ?head = "take (nat (rfind CHR ''/'' p + 1)) p"
  show ?thesis
  proof (cases "?head \<noteq> [] \<and> ?head \<noteq> replicate (length ?head) CHR ''/''")
    case True
    then have "os_path_dirname p = rstrip_sep ?head" by (simp add: os_path_dirname_def Let_def)
    then show ?thesis using rstrip_sep_shape[of ?head] by auto
  next
    case False
    then have "os_path_dirname p = ?head" by (auto simp add: os_path_dirname_def Let_def)
    then show ?thesis using False by auto
  qed
qed

lemma takeWhile_app_stop:
  "(\<And>x. x \<in> set xs \<Longrightarrow> P x) \<Longrightarrow> takeWhile P ys = [] \<Longrightarrow> takeWhile P (xs @ ys) = xs"
  by (induction xs) auto

lemma sep_index_append:
  assumes "CHR ''/'' \<notin> set t" "h = [] \<or> last h = CHR ''/''"
  shows "nat (rfind CHR ''/'' (h @ t) + 1) = length h"
proof -
  have a: "\<forall>x \<in> set (rev t). x \<noteq> CHR ''/''" using assms(1) by auto
  have b: "takeWhile (\<lambda>x. x \<noteq> CHR ''/'') (rev h) = []"
    using assms(2) by (cases "rev h") (auto simp: last_rev)
  have "takeWhile (\<lambda>x. x \<noteq> CHR ''/'') (rev t @ rev h) = rev t"
    using a b by (intro takeWhile_app_stop) auto
  then show ?thesis by (simp add: sep_index)
qed

lemma dirname_append:
  assumes "CHR ''/'' \<notin> set t" "h = [] \<or> last h = CHR ''/''"
  shows "os_path_dirname (h @ t) =
           (if h \<noteq> [] \<and> h \<noteq> replicate (length h) CHR ''/'' then rstrip_sep h else h)"
  using sep_index_append[OF assms] by (simp add: os_path_dirname_def Let_def)

lemma hd_no_sep: "CHR ''/'' \<notin> set b \<Longrightarrow> b \<noteq> [] \<Longrightarrow> hd b \<noteq> CHR ''/''"
  by (cases b) auto

lemma dirname_join:
  assumes b: "CHR ''/'' \<notin> set b"
  shows "os_path_dirname (os_path_join (os_path_dirname a) b) = os_path_dirname a"
proof -
  let ?d = "os_path_dirname a"
  have nb: "\<not> (b \<noteq> [] \<and> hd b = CHR ''/'')" using hd_no_sep[OF b] by auto
  consider "?d = []" | "?d \<noteq> []" "last ?d = CHR ''/''" | "?d \<noteq> []" "last ?d \<noteq> CHR ''/''"
    by blast
  then show ?thesis
  proof cases
    case 1
    then have "os_path_join ?d b = [] @ b" using nb by (simp add: os_path_join_def)
    then show ?thesis using dirname_append[OF b, of "[]"] 1 by simp
  next
    case 2
    then have rep: "?d = replicate (length ?d) CHR ''/''" using dirname_shape[of a] by auto
    have "os_path_join ?d b = ?d @ b" using nb 2 by (simp add: os_path_join_def)
    then show ?thesis using dirname_append[OF b, of ?d] 2 rep by auto
  next
    case 3
    let ?h = "?d @ ''/''"
    have j: "os_path_join ?d b = ?h @ b" using nb 3 by (simp add: os_path_join_def)
    have "last ?d \<in> set ?h" using 3 by simp
    moreover have "\<forall>x \<in> set (replicate (length ?h) CHR ''/''). x = CHR ''/''" by simp
    ultimately have "?h \<noteq> replicate (length ?h) CHR ''/''" using 3(2) by metis
    then have "os_path_dirname (?h @ b) = rstrip_sep ?h"
      using dirname_append[OF b, of ?h] by simp
    also have "\<dots> = ?d" using rstrip_sep_snoc[of ?d] rstrip_sep_id[OF 3] by simp
    finally show ?thesis using j by simp
  qed
qed

lemma join_append:
  assumes "CHR ''/'' \<notin> set b" "x \<noteq> []" "hd x \<noteq> CHR ''/''"
  shows "os_path_join d (b @ x) = os_path_join d b @ x"
proof (cases b)
  case Nil
  then show ?thesis using assms by (simp add: os_path_join_def)
next
  case (Cons c cs)
  then have "c \<noteq> CHR ''/''" using assms(1) by auto
  then show ?thesis using Cons by (simp add: os_path_join_def)
qed


lemma not_under_self: "\<not> under p p"
  by (simp add: under_def)

section \<open>Lemmas on states and traces\<close>

lemma frame_refl: "frame s s"
  by (simp add: frame_def)

lemma frame_trans: "frame s s1 \<Longrightarrow> frame s1 s2 \<Longrightarrow> frame s s2"
  by (simp add: frame_def)

lemma frame_upd:
  "frame s (s\<lparr>fs := f\<rparr>)" "frame s (s\<lparr>trace := t\<rparr>)" "frame s (s\<lparr>fs := f, trace := t\<rparr>)"
  "frame s (s\<lparr>compile_sdk := c\<rparr>)"
  by (simp_all add: frame_def)

lemma frame_fields:
  assumes "frame s s'"
  shows "verbose s' = verbose s" "tool_paths s' = tool_paths s" "KEYSTORE s' = KEYSTORE s"
    "KEYPASS s' = KEYPASS s" "STOREPASS s' = STOREPASS s" "SIGALG s' = SIGALG s"
    "DIGESTALG s' = DIGESTALG s" "ALIAS s' = ALIAS s" "APKTOOL_JAR s' = APKTOOL_JAR s"
    "keep_files s' = keep_files s" "apk s' = apk s" "file_name s' = file_name s"
    "output_dir s' = output_dir s" "patched_apk s' = patched_apk s"
    "zipaligned_apk s' = zipaligned_apk s" "extraction_dir s' = extraction_dir s"
  using assms unfolding frame_def by simp_all

lemma frame_commands:
  assumes "frame s s'"
  shows "decompile_command s' = decompile_command s" "repackage_command s' = repackage_command s"
    "jarsign_command s' = jarsign_command s" "apksign_command s' = apksign_command s"
    "zipalign_command s' = zipalign_command s"
  using frame_fields[OF assms]
  by (simp_all add: decompile_command_def repackage_command_def jarsign_command_def
        apksign_command_def zipalign_command_def split: sum.splits)

lemma frame_verified: "frame s s' \<Longrightarrow> verified s' = verified s"
  using frame_commands frame_fields by (auto simp: verified_def fun_eq_iff split: event.splits)

lemma attempts_append: "attempts (xs @ ys) = attempts xs @ attempts ys"
  by (induction xs rule: attempts.induct) auto

text \<open>The polling loop returns as soon as the child has exited.\<close>

lemma poll_loop_exits:
  assumes "\<not> running p k" "j \<le> k"
  shows "\<exists>r. poll_loop p j outs errs = Some r"
  using assms(2)
proof (induction "k - j" arbitrary: j outs errs)
  case 0
  then have "j = k" by simp
  then show ?case using assms(1) by (subst poll_loop.simps) simp
next
  case (Suc n)
  show ?case
  proof (cases "running p j")
    case False
    then show ?thesis by (subst poll_loop.simps) simp
  next
    case True
    have "n = k - Suc j" "Suc j \<le> k" using Suc.hyps(2) by simp_all
    from Suc.hyps(1)[OF this] True show ?thesis by (subst poll_loop.simps) simp
  qed
qed

lemma those_map_Some: "those (map Some xs) = Some xs"
  by (induction xs) simp_all

lemma those_to_ascii:
  "list_all (\<lambda>c. c < 127) cs \<Longrightarrow> those (map (to_ascii decimal) cs) = Some cs"
  by (induction cs) (simp_all add: to_ascii_def)

lemma horner_snoc: "horner (ds @ [d]) = 10 * horner ds + d"
  by (simp add: horner_def)

lemma decimal_value_snoc: "decimal_value (ds @ [d]) = 10 * decimal_value ds + d"
proof -
  have "(\<Sum>i<length ds. (ds @ [d]) ! i * 10 ^ (length (ds @ [d]) - Suc i)) =
        (\<Sum>i<length ds. 10 * (ds ! i * 10 ^ (length ds - Suc i)))"
  proof (rule sum.cong)
    fix i assume "i \<in> {..<length ds}"
    then have i: "i < length ds" by simp
    then have "length (ds @ [d]) - Suc i = Suc (length ds - Suc i)" by simp
    then show "(ds @ [d]) ! i * 10 ^ (length (ds @ [d]) - Suc i) =
               10 * (ds ! i * 10 ^ (length ds - Suc i))"
      using i by (simp add: nth_append)
  qed simp
  then show ?thesis by (simp add: decimal_value_def sum_distrib_left)
qed

lemma horner_decimal_value: "horner ds = decimal_value ds"
proof (induction ds rule: rev_induct)
  case Nil
  show ?case by (simp add: horner_def decimal_value_def)
next
  case (snoc d ds)
  then show ?case by (simp add: horner_snoc decimal_value_snoc)
qed

lemma digit_chars:
  assumes "list_all (\<lambda>d. d < 10) ds"
  shows "list_all (\<lambda>c. c < 127) (map (\<lambda>d. 48 + d) ds)"
    and "takeWhile digit_or_underscore (map (\<lambda>d. 48 + d) ds) = map (\<lambda>d. 48 + d) ds"
    and "dropWhile digit_or_underscore (map (\<lambda>d. 48 + d) ds) = []"
    and "filter is_digit (map (\<lambda>d. 48 + d) ds) = map (\<lambda>d. 48 + d) ds"
    and "single_underscores (map (\<lambda>d. 48 + d) ds)"
    and "95 \<notin> set (map (\<lambda>d. 48 + d) ds)"
  using assms
proof (induction ds)
  case Nil
  {
    case 1 show ?case by simp
  next
    case 2 show ?case by simp
  next
    case 3 show ?case by simp
  next
    case 4 show ?case by simp
  next
    case 5 show ?case by simp
  next
    case 6 show ?case by simp
  }
next
  case (Cons d ds)
  {
    case 1 then show ?case using Cons.IH(1) by simp
  next
    case 2 then show ?case using Cons.IH(2) by (simp add: digit_or_underscore_def is_digit_def)
  next
    case 3 then show ?case using Cons.IH(3) by (simp add: digit_or_underscore_def is_digit_def)
  next
    case 4 then show ?case using Cons.IH(4) by (simp add: is_digit_def)
  next
    case 5 then show ?case using Cons.IH(5) by (cases ds) simp_all
  next
    case 6 then show ?case using Cons.IH(6) by auto
  }
qed

lemma parse_number_digits:
  assumes "ds \<noteq> []" "list_all (\<lambda>d. d < 10) ds" "\<not> too_many_digits m (length ds)"
  shows "parse_number m (map (\<lambda>d. 48 + d) ds) = Some (decimal_value ds)"
proof -
  let ?cs = "map (\<lambda>d. 48 + d) ds"
  note dc = digit_chars[OF assms(2)]
  have ne: "?cs \<noteq> []" using assms(1) by simp
  have "hd ?cs \<in> set ?cs" "last ?cs \<in> set ?cs" using ne by (simp_all del: set_map)
  with dc(6) have hl: "hd ?cs \<noteq> 95" "last ?cs \<noteq> 95" by metis+
  have m: "map (\<lambda>c. c - 48) ?cs = ds" by (simp add: comp_def)
  show ?thesis
    unfolding parse_number_def Let_def dc(2) dc(3) dc(4) m
    using ne hl dc(5) assms(3) by (simp add: horner_decimal_value)
qed

lemma py_int_digits:
  assumes "ds \<noteq> []" "list_all (\<lambda>d. d < 10) ds" "\<not> too_many_digits m (length ds)"
  shows "py_int decimal m (map (\<lambda>d. 48 + d) ds) = Some (int (decimal_value ds))"
proof -
  let ?cs = "map (\<lambda>d. 48 + d) ds"
  obtain d ds' where ds: "ds = d # ds'" using assms(1) by (cases ds) auto
  have d: "d < 10" using assms(2) ds by simp
  have a: "those (map (to_ascii decimal) ?cs) = Some ?cs"
    by (rule those_to_ascii) (rule digit_chars(1)[OF assms(2)])
  have w: "dropWhile ascii_space ?cs = ?cs" using d by (simp add: ds ascii_space_def)
  have c: "?cs = (48 + d) # map (\<lambda>d. 48 + d) ds'" by (simp add: ds)
  have p: "parse_number m ((48 + d) # map (\<lambda>d. 48 + d) ds') = Some (decimal_value ds)"
    using parse_number_digits[OF assms] by (simp add: ds)
  show ?thesis
    unfolding py_int_def a option.case w
    unfolding c list.case p
    using d by simp
qed

lemma run_command_try_cases:
  assumes "run_command_try e c chk s = Some (r, s')"
  shows "(\<exists>err. r = Inl err \<and> s' = s\<lparr>trace := trace s @ [LaunchFailed c err]\<rparr>)
       \<or> (\<exists>f' rc. s' = s\<lparr>fs := f', trace := trace s @ [Ran c (fs s) rc f']\<rparr> \<and>
              (if chk \<and> rc \<noteq> 0 then isl r else \<not> isl r))"
proof (cases "launch e c (fs s)")
  case (Inl err)
  then have "r = Inl err \<and> s' = s\<lparr>trace := trace s @ [LaunchFailed c err]\<rparr>"
    using assms by (auto simp add: run_command_try_def)
  then show ?thesis by (intro disjI1 exI[of _ err])
next
  case (Inr p)
  show ?thesis
  proof (cases "poll_loop p 0 [] []")
    case None
    then show ?thesis using assms Inr by (simp add: run_command_try_def)
  next
    case (Some a)
    obtain outs errs where a: "a = (outs, errs)" by (cases a)
    have "s' = s\<lparr>fs := fs_after p, trace := trace s @ [Ran c (fs s) (returncode p) (fs_after p)]\<rparr> \<and>
          (if chk \<and> returncode p \<noteq> 0 then isl r else \<not> isl r)"
      using assms Inr Some a
      by (auto simp add: run_command_try_def Let_def split: if_splits)
    then show ?thesis by (intro disjI2 exI[of _ "fs_after p"] exI[of _ "returncode p"])
  qed
qed

lemma run_stage_try:
  assumes "run_stage e c s = Some (r, s')"
  shows "\<exists>r0. run_command_try e c True s = Some (r0, s') \<and> isl r = isl r0 \<and>
              (\<forall>err. r0 = Inl err \<longrightarrow> r = Inl err)"
proof (cases "run_command_try e c True s")
  case None
  then show ?thesis using assms by (simp add: run_stage_def run_command_def)
next
  case (Some a)
  obtain r0 s1 where a: "a = (r0, s1)" by (cases a)
  show ?thesis
  proof (cases r0)
    case (Inl err)
    then show ?thesis using assms Some a by (auto simp add: run_stage_def run_command_def)
  next
    case (Inr v)
    then show ?thesis using assms Some a by (auto simp add: run_stage_def run_command_def)
  qed
qed

lemma run_stage_cases:
  assumes "run_stage e c s = Some (r, s')"
  obtains (launch) err where "r = Inl err" "s' = s\<lparr>trace := trace s @ [LaunchFailed c err]\<rparr>"
        | (fail) f' rc where "rc \<noteq> 0" "isl r"
            "s' = s\<lparr>fs := f', trace := trace s @ [Ran c (fs s) rc f']\<rparr>"
        | (ok) f' where "r = Inr ()"
            "s' = s\<lparr>fs := f', trace := trace s @ [Ran c (fs s) 0 f']\<rparr>"
proof -
  from run_stage_try[OF assms] obtain r0
    where r0: "run_command_try e c True s = Some (r0, s')" and rr: "isl r = isl r0"
      and rl: "\<forall>err. r0 = Inl err \<longrightarrow> r = Inl err"
    by (elim exE conjE)
  from run_command_try_cases[OF r0]
  consider (a) err where "r0 = Inl err" "s' = s\<lparr>trace := trace s @ [LaunchFailed c err]\<rparr>"
    | (b) f' rc where "s' = s\<lparr>fs := f', trace := trace s @ [Ran c (fs s) rc f']\<rparr>"
        "if True \<and> rc \<noteq> 0 then isl r0 else \<not> isl r0"
    by (elim disjE exE conjE)
  then show thesis
  proof cases
    case a
    from a(1) rl have "r = Inl err" by simp
    then show thesis using a(2) by (rule launch)
  next
    case b
    show thesis
    proof (cases "rc = 0")
      case True
      then have "\<not> isl r" using b(2) rr by simp
      then have "r = Inr ()" by (cases r) simp_all
      moreover have "s' = s\<lparr>fs := f', trace := trace s @ [Ran c (fs s) 0 f']\<rparr>"
        using b(1) True by simp
      ultimately show thesis by (rule ok)
    next
      case False
      then have "isl r" using b(2) rr by simp
      with False show thesis using b(1) by (rule fail)
    qed
  qed
qed

lemma commands_distinct:
  "decompile_command s = Inr c \<Longrightarrow> repackage_command s \<noteq> Inr c \<and> zipalign_command s \<noteq> Inr c"
  "jarsign_command s = Inr c \<Longrightarrow> repackage_command s \<noteq> Inr c \<and> zipalign_command s \<noteq> Inr c"
  "apksign_command s = Inr c \<Longrightarrow> repackage_command s \<noteq> Inr c \<and> zipalign_command s \<noteq> Inr c"
  "repackage_command s = Inr c \<Longrightarrow> zipalign_command s \<noteq> Inr c \<and> decompile_command s \<noteq> Inr c"
  "zipalign_command s = Inr c \<Longrightarrow> repackage_command s \<noteq> Inr c \<and> decompile_command s \<noteq> Inr c"
  by (auto simp: decompile_command_def repackage_command_def jarsign_command_def
        apksign_command_def zipalign_command_def split: sum.splits)

lemma step_ok_raise:
  assumes "frame s s'" "trace s' = trace s"
  shows "step_ok plan s (Inl err) s'"
  unfolding step_ok_def using assms by simp

lemma step_ok_silent:
  assumes "frame s s'" "trace s' = trace s"
  shows "step_ok [] s r s'"
  unfolding step_ok_def using assms by simp

lemma step_ok_run:
  assumes run: "run_stage e c s1 = Some (r, s')"
      and fr: "frame s s1" and tr: "trace s1 = trace s"
      and ver: "\<And>f f'. verified s (Ran c f 0 f')"
  shows "step_ok [Inr c] s r s'"
  using run
proof (cases rule: run_stage_cases)
  case (launch err)
  then show ?thesis using fr tr unfolding step_ok_def frame_def by simp
next
  case (fail f' rc)
  then show ?thesis using fr tr unfolding step_ok_def frame_def by simp
next
  case (ok f')
  then show ?thesis using fr tr ver unfolding step_ok_def frame_def by simp
qed

lemma verified_other:
  "repackage_command s \<noteq> Inr c \<Longrightarrow> zipalign_command s \<noteq> Inr c \<Longrightarrow> verified s (Ran c f rc f')"
  by (simp add: verified_def)

lemma decompile_apk_ok:
  assumes "decompile_apk e s = Some (r, s')"
  shows "step_ok [decompile_command s] s r s'"
proof -
  let ?r1 = "if os_path_exists (fs s) (extraction_dir s)
             then shutil_rmtree e (extraction_dir s) (fs s) else Inr (fs s)"
  show ?thesis
  proof (cases ?r1)
    case (Inl err)
    then have "r = Inl err \<and> s' = s" using assms by (auto simp add: decompile_apk_def raise_def)
    then show ?thesis by (simp add: step_ok_raise frame_refl)
  next
    case (Inr f1)
    let ?s1 = "s\<lparr>fs := f1\<rparr>"
    have fr: "frame s ?s1" and tr: "trace ?s1 = trace s" by (simp_all add: frame_def)
    have dc: "decompile_command ?s1 = decompile_command s" using frame_commands[OF fr] by simp
    show ?thesis
    proof (cases "os_path_getsize f1 (apk s)")
      case (Inl err)
      then have "r = Inl err \<and> s' = ?s1" using assms Inr
        by (auto simp add: decompile_apk_def raise_def Let_def)
      then show ?thesis using fr tr by (simp add: step_ok_raise)
    next
      case sz: (Inr n)
      show ?thesis
      proof (cases "decompile_command s")
        case (Inl err)
        then have "r = Inl err \<and> s' = ?s1" using assms Inr sz dc
          by (auto simp add: decompile_apk_def raise_def Let_def)
        then show ?thesis using fr tr by (simp add: step_ok_raise)
      next
        case c: (Inr c)
        then have "run_stage e c ?s1 = Some (r, s')" using assms Inr sz dc
          by (simp add: decompile_apk_def Let_def)
        from step_ok_run[OF this fr tr] verified_other commands_distinct(1)[OF c] show ?thesis
          by (simp add: c)
      qed
    qed
  qed
qed

lemma then_stage_cases:
  assumes "then_stage r k = Some (r2, s2)"
  obtains (stop) err where "r = Some (Inl err, s2)" "r2 = Inl err"
        | (go) u s1 where "r = Some (Inr u, s1)" "k s1 = Some (r2, s2)"
proof (cases r)
  case None
  then show ?thesis using assms by (simp add: then_stage_def)
next
  case (Some a)
  obtain r1 s1 where a: "a = (r1, s1)" by (cases a)
  show ?thesis
  proof (cases r1)
    case (Inl err)
    then have "r = Some (Inl err, s2)" "r2 = Inl err"
      using assms Some a by (auto simp add: then_stage_def)
    then show ?thesis by (rule stop)
  next
    case (Inr u)
    then have "r = Some (Inr u, s1)" "k s1 = Some (r2, s2)"
      using assms Some a by (auto simp add: then_stage_def)
    then show ?thesis by (rule go)
  qed
qed

lemma step_ok_stop:
  assumes "step_ok plan1 s (Inl err :: error + 'a) s2"
  shows "step_ok (plan1 @ plan2) s (Inl err :: error + 'b) s2"
  using assms unfolding step_ok_def by (auto intro: prefix_prefix)

lemma step_ok_go:
  assumes 1: "step_ok plan1 s (Inr u) s1" and 2: "step_ok plan2 s1 r2 s2"
  shows "step_ok (plan1 @ plan2) s r2 s2"
proof -
  from 1 obtain evs1 where fr1: "frame s s1" and t1: "trace s1 = trace s @ evs1"
    and p1: "map Inr (attempts evs1) = plan1" and q1: "list_all quiet evs1"
    and v1: "list_all (verified s) evs1"
    unfolding step_ok_def by auto
  from 2 obtain evs2 where fr2: "frame s1 s2" and t2: "trace s2 = trace s1 @ evs2"
    and p2: "prefix (map Inr (attempts evs2)) plan2"
    and ok2: "\<not> isl r2 \<longrightarrow> map Inr (attempts evs2) = plan2 \<and> list_all quiet evs2 \<and> list_all (verified s1) evs2"
    and bad2: "isl r2 \<longrightarrow> list_all quiet evs2 \<or>
            (\<exists>pre c f rc. evs2 = pre @ [Ran c f rc (fs s2)] \<and> rc \<noteq> 0 \<and> list_all quiet pre)"
    unfolding step_ok_def by auto
  have vs: "verified s1 = verified s" using frame_verified[OF fr1] .
  have a: "frame s s2" using frame_trans[OF fr1 fr2] .
  have b: "trace s2 = trace s @ (evs1 @ evs2)" using t1 t2 by simp
  have c: "prefix (map Inr (attempts (evs1 @ evs2))) (plan1 @ plan2)"
    using p1 p2 by (simp add: attempts_append)
  have d: "\<not> isl r2 \<longrightarrow> map Inr (attempts (evs1 @ evs2)) = plan1 @ plan2 \<and>
             list_all quiet (evs1 @ evs2) \<and> list_all (verified s) (evs1 @ evs2)"
    using p1 q1 v1 ok2 vs by (simp add: attempts_append)
  have e: "isl r2 \<longrightarrow> list_all quiet (evs1 @ evs2) \<or>
            (\<exists>pre c f rc. evs1 @ evs2 = pre @ [Ran c f rc (fs s2)] \<and> rc \<noteq> 0 \<and> list_all quiet pre)"
  proof
    assume "isl r2"
    with bad2 consider "list_all quiet evs2"
      | pre c f rc where "evs2 = pre @ [Ran c f rc (fs s2)]" "rc \<noteq> 0" "list_all quiet pre"
      by blast
    then show "list_all quiet (evs1 @ evs2) \<or>
            (\<exists>pre c f rc. evs1 @ evs2 = pre @ [Ran c f rc (fs s2)] \<and> rc \<noteq> 0 \<and> list_all quiet pre)"
    proof cases
      case 1
      then show ?thesis using q1 by simp
    next
      case 2
      have "evs1 @ evs2 = (evs1 @ pre) @ [Ran c f rc (fs s2)] \<and> rc \<noteq> 0 \<and> list_all quiet (evs1 @ pre)"
        using 2 q1 by simp
      then show ?thesis by blast
    qed
  qed
  show ?thesis unfolding step_ok_def using a b c d e by blast
qed

lemma step_ok_then:
  assumes t: "then_stage r k = Some (r2, s2)"
      and 1: "\<And>r1 s1. r = Some (r1, s1) \<Longrightarrow> step_ok plan1 s r1 s1"
      and 2: "\<And>u s1. r = Some (Inr u, s1) \<Longrightarrow> k s1 = Some (r2, s2) \<Longrightarrow> step_ok plan2 s1 r2 s2"
  shows "step_ok (plan1 @ plan2) s r2 s2"
  using t
proof (cases rule: then_stage_cases)
  case (stop err)
  from 1[OF stop(1)] show ?thesis unfolding stop(2) by (rule step_ok_stop)
next
  case (go u s1)
  from step_ok_go[OF 1[OF go(1)] 2[OF go]] show ?thesis .
qed

lemma run_stage_sdk:
  assumes "run_stage e c s = Some (r, s')"
  shows "compile_sdk s' = compile_sdk s"
  using assms by (cases rule: run_stage_cases) simp_all

lemma add_network_file_silent:
  assumes "add_network_file e s = Some (r, s')"
  shows "frame s s' \<and> trace s' = trace s \<and> compile_sdk s' = compile_sdk s"
proof -
  let ?path = "os_path_join (extraction_dir s) ''res/xml''"
  show ?thesis
  proof (cases "os_makedirs e ?path (fs s)")
    case (Inl err)
    then have "s' = s" using assms by (auto simp add: add_network_file_def raise_def Let_def)
    then show ?thesis by (simp add: frame_def)
  next
    case (Inr f1)
    show ?thesis
    proof (cases "write_file e (os_path_join ?path ''network_security_config.xml'') network_file f1")
      case (Inl err)
      then have "s' = s\<lparr>fs := f1\<rparr>" using assms Inr
        by (auto simp add: add_network_file_def raise_def Let_def)
      then show ?thesis by (simp add: frame_def)
    next
      case f2: (Inr f2)
      then have "s' = s\<lparr>fs := f2\<rparr>" using assms Inr
        by (auto simp add: add_network_file_def done_stage_def Let_def)
      then show ?thesis by (simp add: frame_def)
    qed
  qed
qed

lemma add_network_attribute_to_manifest_silent:
  assumes "add_network_attribute_to_manifest e s = Some (r, s')"
  shows "frame s s' \<and> trace s' = trace s \<and> compile_sdk s' = compile_sdk s"
proof -
  have "s' = s \<or> (\<exists>f1. s' = s\<lparr>fs := f1\<rparr>)"
    using assms
    by (auto simp add: add_network_attribute_to_manifest_def raise_def done_stage_def Let_def
          split: if_splits sum.splits option.splits)
  then show ?thesis by (auto simp add: frame_def)
qed

lemma check_compile_sdk_version_silent:
  assumes "check_compile_sdk_version e s = Some (r, s')"
  shows "frame s s' \<and> trace s' = trace s \<and> fs s' = fs s \<and> r = Inr () \<and> (\<exists>v. compile_sdk s' = Some v)"
  using assms
  by (auto simp add: check_compile_sdk_version_def done_stage_def frame_def split: sum.splits)

lemma repackage_apk_ok:
  assumes "repackage_apk e s = Some (r, s')"
  shows "step_ok [repackage_command s] s r s' \<and> compile_sdk s' = compile_sdk s"
proof (cases "repackage_command s")
  case (Inl err)
  then have "r = Inl err \<and> s' = s" using assms by (auto simp add: repackage_apk_def raise_def)
  then show ?thesis by (simp add: step_ok_raise frame_refl)
next
  case c: (Inr c)
  let ?k = "\<lambda>s1. if \<not> os_path_exists (fs s1) (patched_apk s1)
                  then raise (FileNotFoundError (patched_apk s1)) s1 else done_stage s1"
  have t: "then_stage (run_stage e c s) ?k = Some (r, s')"
    using assms c by (simp add: repackage_apk_def)
  from t show ?thesis
  proof (cases rule: then_stage_cases)
    case (stop err)
    from stop(1) have "step_ok [Inr c] s (Inl err :: error + unit) s'"
    proof (cases rule: run_stage_cases)
      case (launch err')
      then show ?thesis unfolding step_ok_def frame_def by simp
    next
      case (fail f' rc)
      then show ?thesis unfolding step_ok_def frame_def by simp
    next
      case (ok f')
      then show ?thesis by simp
    qed
    moreover have "compile_sdk s' = compile_sdk s" using run_stage_sdk[OF stop(1)] .
    ultimately show ?thesis using c stop(2) by simp
  next
    case (go u s1)
    from go(1) show ?thesis
    proof (cases rule: run_stage_cases)
      case (launch err')
      then show ?thesis by simp
    next
      case (fail f' rc)
      then show ?thesis by simp
    next
      case (ok f')
      have s1: "s1 = s\<lparr>fs := f', trace := trace s @ [Ran c (fs s) 0 f']\<rparr>" using ok by simp
      show ?thesis
      proof (cases "os_path_exists f' (patched_apk s)")
        case True
        then have "r = Inr () \<and> s' = s1" using go(2) s1 by (auto simp add: done_stage_def)
        then show ?thesis using s1 True c commands_distinct(4)[OF c]
          unfolding step_ok_def frame_def by (simp add: verified_def)
      next
        case False
        then have "r = Inl (FileNotFoundError (patched_apk s)) \<and> s' = s1"
          using go(2) s1 by (auto simp add: raise_def)
        then show ?thesis using s1 c unfolding step_ok_def frame_def by simp
      qed
    qed
  qed
qed

lemma step_ok_run_sdk:
  assumes run: "run_stage e c s1 = Some (r, s')"
      and fr: "frame s s1" and tr: "trace s1 = trace s" and sdk: "compile_sdk s1 = compile_sdk s"
      and ver: "\<And>f f'. verified s (Ran c f 0 f')"
  shows "step_ok [Inr c] s r s' \<and> compile_sdk s' = compile_sdk s"
  using step_ok_run[OF run fr tr ver] run_stage_sdk[OF run] sdk by simp

lemma jarsign_apk_ok:
  assumes "jarsign_apk e s = Some (r, s')"
  shows "step_ok [jarsign_command s] s r s' \<and> compile_sdk s' = compile_sdk s"
proof (cases "os_path_getsize (fs s) (patched_apk s)")
  case (Inl err)
  then have "r = Inl err \<and> s' = s" using assms by (auto simp add: jarsign_apk_def raise_def)
  then show ?thesis by (simp add: step_ok_raise frame_refl)
next
  case sz: (Inr n)
  show ?thesis
  proof (cases "jarsign_command s")
    case (Inl err)
    then have "r = Inl err \<and> s' = s" using assms sz by (auto simp add: jarsign_apk_def raise_def)
    then show ?thesis by (simp add: step_ok_raise frame_refl)
  next
    case c: (Inr c)
    then have "run_stage e c s = Some (r, s')" using assms sz by (simp add: jarsign_apk_def)
    from step_ok_run_sdk[OF this frame_refl refl refl] verified_other commands_distinct(2)[OF c]
    show ?thesis by (simp add: c)
  qed
qed

lemma apksign_apk_ok:
  assumes "apksign_apk e s = Some (r, s')"
  shows "step_ok [apksign_command s] s r s' \<and> compile_sdk s' = compile_sdk s"
proof (cases "os_path_getsize (fs s) (zipaligned_apk s)")
  case (Inl err)
  then have "r = Inl err \<and> s' = s" using assms by (auto simp add: apksign_apk_def raise_def)
  then show ?thesis by (simp add: step_ok_raise frame_refl)
next
  case sz: (Inr n)
  show ?thesis
  proof (cases "apksign_command s")
    case (Inl err)
    then have "r = Inl err \<and> s' = s" using assms sz by (auto simp add: apksign_apk_def raise_def)
    then show ?thesis by (simp add: step_ok_raise frame_refl)
  next
    case c: (Inr c)
    then have "run_stage e c s = Some (r, s')" using assms sz by (simp add: apksign_apk_def)
    from step_ok_run_sdk[OF this frame_refl refl refl] verified_other commands_distinct(3)[OF c]
    show ?thesis by (simp add: c)
  qed
qed

lemma run_then_check_ok:
  assumes t: "then_stage (run_stage e c s1)
                (\<lambda>s2. if \<not> os_path_exists (fs s2) (p s2)
                      then raise (FileNotFoundError (p s2)) s2 else done_stage s2) = Some (r, s')"
      and fr: "frame s s1" and tr: "trace s1 = trace s" and sdk: "compile_sdk s1 = compile_sdk s"
      and pf: "\<And>f t. p (s1\<lparr>fs := f, trace := t\<rparr>) = p s"
      and ver: "\<And>f f'. os_path_exists f' (p s) \<Longrightarrow> verified s (Ran c f 0 f')"
  shows "step_ok [Inr c] s r s' \<and> compile_sdk s' = compile_sdk s"
  using t
proof (cases rule: then_stage_cases)
  case (stop err)
  from stop(1) have "step_ok [Inr c] s (Inl err :: error + unit) s'"
  proof (cases rule: run_stage_cases)
    case (launch err')
    then show ?thesis using fr tr unfolding step_ok_def frame_def by simp
  next
    case (fail f' rc)
    then show ?thesis using fr tr unfolding step_ok_def frame_def by simp
  next
    case (ok f')
    then show ?thesis by simp
  qed
  moreover have "compile_sdk s' = compile_sdk s" using run_stage_sdk[OF stop(1)] sdk by simp
  ultimately show ?thesis using stop(2) by simp
next
  case (go u s2)
  from go(1) show ?thesis
  proof (cases rule: run_stage_cases)
    case (launch err')
    then show ?thesis by simp
  next
    case (fail f' rc)
    then show ?thesis by simp
  next
    case (ok f')
    have s2: "s2 = s1\<lparr>fs := f', trace := trace s1 @ [Ran c (fs s1) 0 f']\<rparr>" using ok by simp
    have p2: "p s2 = p s" unfolding s2 by (rule pf)
    show ?thesis
    proof (cases "os_path_exists f' (p s)")
      case True
      then have "r = Inr () \<and> s' = s2" using go(2) s2 p2 by (auto simp add: done_stage_def)
      then show ?thesis using s2 ver[OF True] fr tr sdk
        unfolding step_ok_def frame_def by simp
    next
      case False
      then have "r = Inl (FileNotFoundError (p s)) \<and> s' = s2"
        using go(2) s2 p2 by (auto simp add: raise_def)
      then show ?thesis using s2 fr tr sdk unfolding step_ok_def frame_def by simp
    qed
  qed
qed

lemma zipalign_apk_ok:
  assumes "zipalign_apk e s = Some (r, s')"
  shows "step_ok [zipalign_command s] s r s' \<and> compile_sdk s' = compile_sdk s"
proof (cases "os_makedirs e (os_path_dirname (zipaligned_apk s)) (fs s)")
  case (Inl err)
  then have "r = Inl err \<and> s' = s" using assms by (auto simp add: zipalign_apk_def raise_def)
  then show ?thesis by (simp add: step_ok_raise frame_refl)
next
  case (Inr f1)
  let ?s1 = "s\<lparr>fs := f1\<rparr>"
  have fr: "frame s ?s1" and tr: "trace ?s1 = trace s" and sdk: "compile_sdk ?s1 = compile_sdk s"
    by (simp_all add: frame_def)
  have zc: "zipalign_command ?s1 = zipalign_command s" using frame_commands[OF fr] by simp
  show ?thesis
  proof (cases "os_path_getsize f1 (patched_apk s)")
    case (Inl err)
    then have "r = Inl err \<and> s' = ?s1" using assms Inr
      by (auto simp add: zipalign_apk_def raise_def Let_def)
    then show ?thesis using fr tr by (simp add: step_ok_raise)
  next
    case sz: (Inr n)
    show ?thesis
    proof (cases "zipalign_command s")
      case (Inl err)
      then have "r = Inl err \<and> s' = ?s1" using assms Inr sz zc
        by (auto simp add: zipalign_apk_def raise_def Let_def)
      then show ?thesis using fr tr by (simp add: step_ok_raise)
    next
      case c: (Inr c)
      then have t: "then_stage (run_stage e c ?s1)
                (\<lambda>s2. if \<not> os_path_exists (fs s2) (zipaligned_apk s2)
                      then raise (FileNotFoundError (zipaligned_apk s2)) s2 else done_stage s2) = Some (r, s')"
        using assms Inr sz zc by (simp add: zipalign_apk_def Let_def)
      have ver: "\<And>f f'. os_path_exists f' (zipaligned_apk s) \<Longrightarrow> verified s (Ran c f 0 f')"
        using commands_distinct(5)[OF c] by (simp add: verified_def)
      from run_then_check_ok[where p = zipaligned_apk, OF t fr tr sdk _ ver] show ?thesis
        by (simp add: c)
    qed
  qed
qed

lemma step_ok_return: "step_ok [] s (Inr v) s"
  by (simp add: step_ok_def frame_def)

lemma two_stages_ok:
  assumes t: "then_stage (st1 s) (\<lambda>s1. then_stage (st2 s1) (\<lambda>s2. return_value (zipaligned_apk s2) s2)) = Some (r, s')"
      and 1: "\<And>r1 s1. st1 s = Some (r1, s1) \<Longrightarrow> step_ok [c1 s] s r1 s1 \<and> compile_sdk s1 = compile_sdk s"
      and 2: "\<And>s1 r2 s2. st2 s1 = Some (r2, s2) \<Longrightarrow> step_ok [c2 s1] s1 r2 s2 \<and> compile_sdk s2 = compile_sdk s1"
      and cf: "\<And>s1. frame s s1 \<Longrightarrow> c2 s1 = c2 s"
  shows "step_ok [c1 s, c2 s] s r s' \<and> compile_sdk s' = compile_sdk s \<and>
         (\<forall>p. r = Inr p \<longrightarrow> p = zipaligned_apk s)"
  using t
proof (cases rule: then_stage_cases)
  case (stop err)
  note a = 1[OF stop(1)]
  from step_ok_stop[OF conjunct1[OF a], of "[c2 s]"] a show ?thesis
    using stop(2) by simp
next
  case (go u s1)
  note a = 1[OF go(1)]
  then have fr1: "frame s s1" unfolding step_ok_def by simp
  from go(2) show ?thesis
  proof (cases rule: then_stage_cases)
    case (stop err)
    note b = 2[OF stop(1)]
    have "step_ok [c2 s1] s1 (Inl err :: error + string) s'"
      using conjunct1[OF b] unfolding step_ok_def by simp
    from step_ok_go[OF conjunct1[OF a] this] a b cf[OF fr1] stop(2)
    show ?thesis by simp
  next
    case (go u2 s2)
    note b = 2[OF go(1)]
    then have fr2: "frame s1 s2" unfolding step_ok_def by simp
    have r: "r = Inr (zipaligned_apk s2) \<and> s' = s2" using go(2) by (auto simp add: return_value_def)
    have z: "zipaligned_apk s2 = zipaligned_apk s"
      using frame_fields(15)[OF frame_trans[OF fr1 fr2]] .
    have "step_ok [c2 s1] s1 (Inr (zipaligned_apk s) :: error + string) s2"
      using conjunct1[OF b] unfolding step_ok_def by simp
    from step_ok_go[OF conjunct1[OF a] this] a b cf[OF fr1] r z show ?thesis by simp
  qed
qed

lemma sign_and_align_ok:
  assumes sa: "sign_and_align e s = Some (r, s')" and v: "compile_sdk s = Some v"
  shows "step_ok (signing_strategy s v) s r s' \<and> compile_sdk s' = Some v \<and>
         (\<forall>p. r = Inr p \<longrightarrow> p = zipaligned_apk s)"
proof (cases "v \<ge> 30")
  case True
  then have t: "then_stage (zipalign_apk e s)
      (\<lambda>s1. then_stage (apksign_apk e s1) (\<lambda>s2. return_value (zipaligned_apk s2) s2)) = Some (r, s')"
    using sa v by (simp add: sign_and_align_def)
  have "step_ok [zipalign_command s, apksign_command s] s r s' \<and> compile_sdk s' = compile_sdk s \<and>
         (\<forall>p. r = Inr p \<longrightarrow> p = zipaligned_apk s)"
    by (rule two_stages_ok[where ?st1.0 = "zipalign_apk e" and ?st2.0 = "apksign_apk e", OF t])
       (simp_all add: zipalign_apk_ok apksign_apk_ok frame_commands)
  then show ?thesis using True v by (simp add: signing_strategy_def)
next
  case False
  then have t: "then_stage (jarsign_apk e s)
      (\<lambda>s1. then_stage (zipalign_apk e s1) (\<lambda>s2. return_value (zipaligned_apk s2) s2)) = Some (r, s')"
    using sa v by (simp add: sign_and_align_def)
  have "step_ok [jarsign_command s, zipalign_command s] s r s' \<and> compile_sdk s' = compile_sdk s \<and>
         (\<forall>p. r = Inr p \<longrightarrow> p = zipaligned_apk s)"
    by (rule two_stages_ok[where ?st1.0 = "jarsign_apk e" and ?st2.0 = "zipalign_apk e", OF t])
       (simp_all add: zipalign_apk_ok jarsign_apk_ok frame_commands)
  then show ?thesis using False v by (simp add: signing_strategy_def)
qed

lemma frame_strategy: "frame s s' \<Longrightarrow> signing_strategy s' v = signing_strategy s v"
  using frame_commands by (simp add: signing_strategy_def)

lemma silent_stages:
  assumes "then_stage (add_network_file e s1)
            (\<lambda>s2. then_stage (add_network_attribute_to_manifest e s2)
              (\<lambda>s3. then_stage (check_compile_sdk_version e s3) k)) = Some (r, s')"
  obtains (stop) err where "r = Inl err" "frame s1 s'" "trace s' = trace s1"
        | (go) s4 v where "frame s1 s4" "trace s4 = trace s1" "compile_sdk s4 = Some v"
            "k s4 = Some (r, s')"
  using assms
proof (cases rule: then_stage_cases)
  case a: (stop err)
  from add_network_file_silent[OF a(1)] a(2) show ?thesis by (intro stop) simp_all
next
  case a: (go u s2)
  note f2 = add_network_file_silent[OF a(1)]
  from a(2) show ?thesis
  proof (cases rule: then_stage_cases)
    case b: (stop err)
    note f3 = add_network_attribute_to_manifest_silent[OF b(1)]
    have "frame s1 s'" using f2 f3 frame_trans by blast
    moreover have "trace s' = trace s1" using f2 f3 by simp
    ultimately show ?thesis using b(2) by (intro stop) simp_all
  next
    case b: (go u3 s3)
    note f3 = add_network_attribute_to_manifest_silent[OF b(1)]
    have fr3: "frame s1 s3" using f2 f3 frame_trans by blast
    have tr3: "trace s3 = trace s1" using f2 f3 by simp
    from b(2) show ?thesis
    proof (cases rule: then_stage_cases)
      case c: (stop err)
      from check_compile_sdk_version_silent[OF c(1)] show ?thesis by simp
    next
      case c: (go u4 s4)
      note f4 = check_compile_sdk_version_silent[OF c(1)]
      then obtain v where v: "compile_sdk s4 = Some v" by blast
      have "frame s1 s4" using fr3 f4 frame_trans by blast
      moreover have "trace s4 = trace s1" using tr3 f4 by simp
      ultimately show ?thesis using v c(2) by (rule go)
    qed
  qed
qed

lemma repack_sign_ok:
  assumes t: "then_stage (repackage_apk e s4) (\<lambda>s5. sign_and_align e s5) = Some (r, s')"
      and v: "compile_sdk s4 = Some v"
  shows "step_ok (repackage_command s4 # signing_strategy s4 v) s4 r s' \<and> compile_sdk s' = Some v \<and>
         (\<forall>p. r = Inr p \<longrightarrow> p = zipaligned_apk s4)"
  using t
proof (cases rule: then_stage_cases)
  case (stop err)
  note a = repackage_apk_ok[OF stop(1)]
  from step_ok_stop[OF conjunct1[OF a], of "signing_strategy s4 v"] a v stop(2)
  show ?thesis by simp
next
  case (go u s5)
  note a = repackage_apk_ok[OF go(1)]
  then have fr: "frame s4 s5" unfolding step_ok_def by simp
  have v5: "compile_sdk s5 = Some v" using a v by simp
  note b = sign_and_align_ok[OF go(2) v5]
  from step_ok_go[OF conjunct1[OF a] conjunct1[OF b]] b frame_strategy[OF fr] frame_fields(15)[OF fr]
  show ?thesis by simp
qed

lemma stages_ok:
  assumes "stages e s = Some (r, s')"
  shows "stages_spec s r s'"
  using assms unfolding stages_def
proof (cases rule: then_stage_cases)
  case (stop err)
  note a = decompile_apk_ok[OF stop(1)]
  have "step_ok (pipeline_plan s v) s r s'" for v
    using step_ok_stop[OF a, of "repackage_command s # signing_strategy s v"] stop(2)
    by (simp add: pipeline_plan_def)
  then show ?thesis using stop(2) by (simp add: stages_spec_def)
next
  case (go u s1)
  note a = decompile_apk_ok[OF go(1)]
  then have fr1: "frame s s1" unfolding step_ok_def by simp
  from go(2) show ?thesis
  proof (cases rule: silent_stages)
    case (stop err)
    have "step_ok [] s1 (Inl err :: error + string) s'"
      using stop by (simp add: step_ok_raise)
    from step_ok_go[OF a this] have b: "step_ok [decompile_command s] s (Inl err :: error + string) s'"
      by simp
    have "step_ok (pipeline_plan s v) s r s'" for v
      using step_ok_stop[OF b, of "repackage_command s # signing_strategy s v"] stop(1)
      by (simp add: pipeline_plan_def)
    then show ?thesis using stop(1) by (simp add: stages_spec_def)
  next
    case (go s4 v)
    have fr4: "frame s s4" using fr1 go(1) frame_trans by blast
    have "step_ok [] s1 (Inr () :: error + unit) s4" using go(1,2) by (simp add: step_ok_silent)
    from step_ok_go[OF a this] have b: "step_ok [decompile_command s] s (Inr () :: error + unit) s4"
      by simp
    note c = repack_sign_ok[OF go(4) go(3)]
    from step_ok_go[OF b conjunct1[OF c]]
    have "step_ok (pipeline_plan s v) s r s'"
      using frame_commands[OF fr4] frame_strategy[OF fr4] by (simp add: pipeline_plan_def)
    then show ?thesis using c frame_fields(15)[OF fr4] by (auto simp add: stages_spec_def)
  qed
qed

lemma attempts_none: "attempts evs = [] \<Longrightarrow> list_all quiet evs \<and> list_all (verified s) evs"
  by (induction evs rule: attempts.induct) (simp_all add: verified_def)

lemma cleanup_files_frame:
  "frame s (cleanup_files e s) \<and> compile_sdk (cleanup_files e s) = compile_sdk s \<and>
   (\<exists>ws. trace (cleanup_files e s) = trace s @ ws \<and> attempts ws = [])"
proof -
  let ?s1 = "if os_path_exists (fs s) (extraction_dir s)
         then (case shutil_rmtree e (extraction_dir s) (fs s) of
                 Inl err \<Rightarrow> s\<lparr>trace := trace s @ [Warning ''Could not remove directory'']\<rparr>
               | Inr f1 \<Rightarrow> s\<lparr>fs := f1\<rparr>)
         else s"
  have 1: "frame s ?s1 \<and> compile_sdk ?s1 = compile_sdk s \<and>
           (\<exists>ws. trace ?s1 = trace s @ ws \<and> attempts ws = [])"
    by (auto simp add: frame_def split: sum.splits)
  let ?s2 = "if os_path_exists (fs ?s1) (patched_apk ?s1) \<and> patched_apk ?s1 \<noteq> zipaligned_apk ?s1
         then (case os_remove e (patched_apk ?s1) (fs ?s1) of
                 Inl err \<Rightarrow> ?s1\<lparr>trace := trace ?s1 @ [Warning ''Could not remove file'']\<rparr>
               | Inr f2 \<Rightarrow> ?s1\<lparr>fs := f2\<rparr>)
         else ?s1"
  have 2: "frame ?s1 ?s2 \<and> compile_sdk ?s2 = compile_sdk ?s1 \<and>
           (\<exists>ws. trace ?s2 = trace ?s1 @ ws \<and> attempts ws = [])"
    by (auto simp add: frame_def split: sum.splits)
  have c: "cleanup_files e s = ?s2" by (simp add: cleanup_files_def Let_def)
  from 1 obtain w1 where w1: "trace ?s1 = trace s @ w1" "attempts w1 = []" by blast
  from 2 obtain w2 where w2: "trace ?s2 = trace ?s1 @ w2" "attempts w2 = []" by blast
  have "trace ?s2 = trace s @ (w1 @ w2) \<and> attempts (w1 @ w2) = []"
    using w1 w2 by (simp add: attempts_append)
  then have t: "\<exists>ws. trace ?s2 = trace s @ ws \<and> attempts ws = []" by blast
  have f: "frame s ?s2" using 1 2 frame_trans by blast
  have k: "compile_sdk ?s2 = compile_sdk s" using 1 2 by simp
  show ?thesis unfolding c using f k t by blast
qed

lemma getsize_exists: "os_path_getsize f p = Inr n \<Longrightarrow> os_path_exists f p"
  by (auto simp add: os_path_getsize_def os_path_exists_def split: option.splits)


lemma verify_output_ok:
  assumes "verify_output e final s = Some (r, s')"
  shows "frame s s' \<and> compile_sdk s' = compile_sdk s \<and>
         (\<exists>tail. trace s' = trace s @ tail \<and> attempts tail = [] \<and>
                 (r = Inr True \<longrightarrow> tail \<noteq> [] \<and> last tail = Completed final)) \<and>
         (r = Inr True \<longrightarrow> os_path_exists (fs s') final)"
proof (cases "os_path_exists (fs s) final")
  case False
  then have "r = Inr False \<and> s' = s" using assms by (auto simp add: verify_output_def return_value_def)
  then show ?thesis by (simp add: frame_refl)
next
  case True
  let ?s1 = "if \<not> keep_files s then cleanup_files e s else s"
  have 1: "frame s ?s1 \<and> compile_sdk ?s1 = compile_sdk s \<and>
           (\<exists>ws. trace ?s1 = trace s @ ws \<and> attempts ws = [])"
    using cleanup_files_frame[of s e] by (simp add: frame_refl)
  then obtain ws where ws: "trace ?s1 = trace s @ ws" "attempts ws = []" by blast
  show ?thesis
  proof (cases "os_path_getsize (fs ?s1) final")
    case (Inl err)
    then have "r = Inl err \<and> s' = ?s1" using assms True
      by (auto simp add: verify_output_def raise_def Let_def)
    then show ?thesis using 1 by auto
  next
    case (Inr n)
    then have r: "r = Inr True" and s': "s' = ?s1\<lparr>trace := trace ?s1 @ [Completed final]\<rparr>"
      using assms True by (auto simp add: verify_output_def return_value_def Let_def)
    have a: "frame s s'" using 1 unfolding s' frame_def by simp
    have b: "compile_sdk s' = compile_sdk s" using 1 unfolding s' by simp
    have c: "trace s' = trace s @ (ws @ [Completed final]) \<and> attempts (ws @ [Completed final]) = [] \<and>
             ws @ [Completed final] \<noteq> [] \<and> last (ws @ [Completed final]) = Completed final"
      using ws unfolding s' by (simp add: attempts_append)
    have d: "os_path_exists (fs s') final" using getsize_exists[OF Inr] unfolding s' by simp
    from c have "\<exists>tail. trace s' = trace s @ tail \<and> attempts tail = [] \<and>
                 (r = Inr True \<longrightarrow> tail \<noteq> [] \<and> last tail = Completed final)" by blast
    then show ?thesis using a b d by blast
  qed
qed

lemma cut_cases:
  assumes "cut e s = Some (b, s')"
  obtains (refused) "\<not> b" "s' = s"
        | (aborted) err where "stages e s = Some (Inl err, s')" "\<not> b"
        | (finished) s1 r where "stages e s = Some (Inr (zipaligned_apk s), s1)"
            "verify_output e (zipaligned_apk s) s1 = Some (r, s')" "b = (r = Inr True)"
proof (cases "os_path_isfile (fs s) (apk s)")
  case False
  then have "\<not> b" "s' = s" using assms by (auto simp add: cut_def)
  then show ?thesis by (rule refused)
next
  case True
  show ?thesis
  proof (cases "os_path_getsize (fs s) (apk s)")
    case (Inl err)
    then have "\<not> b" "s' = s" using assms True by (auto simp add: cut_def cut_try_def raise_def)
    then show ?thesis by (rule refused)
  next
    case (Inr n)
    show ?thesis
    proof (cases "stages e s")
      case None
      then show ?thesis using assms True Inr by (simp add: cut_def cut_try_def)
    next
      case (Some a)
      obtain r0 s1 where a: "a = (r0, s1)" by (cases a)
      show ?thesis
      proof (cases r0)
        case (Inl err)
        then have "stages e s = Some (Inl err, s')" "\<not> b"
          using assms True Inr Some a by (auto simp add: cut_def cut_try_def)
        then show ?thesis by (rule aborted)
      next
        case fin: (Inr final)
        have st: "stages e s = Some (Inr final, s1)" using Some a fin by simp
        have final: "final = zipaligned_apk s" using stages_ok[OF st] by (simp add: stages_spec_def)
        show ?thesis
        proof (cases "verify_output e final s1")
          case None
          then show ?thesis using assms True Inr st by (simp add: cut_def cut_try_def)
        next
          case (Some c)
          obtain r s2 where c: "c = (r, s2)" by (cases c)
          have "s2 = s'" "b = (r = Inr True)"
            using assms True Inr st Some c by (auto simp add: cut_def cut_try_def split: sum.splits)
          then show ?thesis using finished[of s1 r] st Some c final by simp
        qed
      qed
    qed
  qed
qed

lemma quiet_mem: "list_all quiet evs \<Longrightarrow> Ran c f rc f' \<in> set evs \<Longrightarrow> rc = 0"
  by (auto simp add: list_all_iff)

lemma stages_step:
  assumes "stages e s = Some (r, s')"
  shows "\<exists>v. step_ok (pipeline_plan s v) s r s'"
  using stages_ok[OF assms] unfolding stages_spec_def by blast

lemma stages_step_sdk:
  assumes "stages e s = Some (r, s')" "compile_sdk s' = Some v"
  shows "step_ok (pipeline_plan s v) s r s'"
  using stages_ok[OF assms(1)] assms(2) unfolding stages_spec_def by auto

lemma verified_mem:
  "list_all (verified s) evs \<Longrightarrow> Ran c f rc f' \<in> set evs \<Longrightarrow>
     (repackage_command s = Inr c \<longrightarrow> os_path_exists f' (patched_apk s)) \<and>
     (zipalign_command s = Inr c \<longrightarrow> os_path_exists f' (zipaligned_apk s))"
  by (auto simp add: list_all_iff verified_def split: event.splits)

lemma repackage_apk_missing:
  assumes "repackage_command s = Inr c" "run_stage e c s = Some (Inr (), s1)"
      and "\<not> os_path_exists (fs s1) (patched_apk s)"
  shows "repackage_apk e s = Some (Inl (FileNotFoundError (patched_apk s)), s1)"
proof -
  have "patched_apk s1 = patched_apk s"
    using assms(2) by (cases rule: run_stage_cases) simp_all
  then show ?thesis using assms by (simp add: repackage_apk_def then_stage_def raise_def)
qed

lemma zipalign_apk_missing:
  assumes "os_makedirs e (os_path_dirname (zipaligned_apk s)) (fs s) = Inr f1"
      and "os_path_getsize f1 (patched_apk s) = Inr n"
      and "zipalign_command s = Inr c" "run_stage e c (s\<lparr>fs := f1\<rparr>) = Some (Inr (), s2)"
      and "\<not> os_path_exists (fs s2) (zipaligned_apk s)"
  shows "zipalign_apk e s = Some (Inl (FileNotFoundError (zipaligned_apk s)), s2)"
proof -
  have z: "zipaligned_apk s2 = zipaligned_apk s"
    using assms(4) by (cases rule: run_stage_cases) simp_all
  have zc: "zipalign_command (s\<lparr>fs := f1\<rparr>) = Inr c"
    using assms(3) frame_commands(5)[OF frame_upd(1)[where s = s and f = f1]] by simp
  show ?thesis using assms z zc
    by (simp add: zipalign_apk_def then_stage_def raise_def Let_def)
qed

lemma missing_output_not_success:
  assumes run: "cut e s = Some (b, s')" and tr: "trace s' = trace s @ evs"
      and ev: "Ran c f 0 f' \<in> set evs"
      and missing: "repackage_command s = Inr c \<and> \<not> os_path_exists f' (patched_apk s) \<or>
                    zipalign_command s = Inr c \<and> \<not> os_path_exists f' (zipaligned_apk s)"
  shows "\<not> b"
  using run
proof (cases rule: cut_cases)
  case refused
  then show ?thesis by simp
next
  case (aborted err)
  then show ?thesis by simp
next
  case (finished s1 r)
  from stages_step[OF finished(1)] obtain v
    where "step_ok (pipeline_plan s v) s (Inr (zipaligned_apk s) :: error + string) s1" ..
  then obtain evs1 where t1: "trace s1 = trace s @ evs1" and q1: "list_all (verified s) evs1"
    unfolding step_ok_def by auto
  from verify_output_ok[OF finished(2)] obtain tail
    where t2: "trace s' = trace s1 @ tail" and q2: "attempts tail = []" by blast
  have "evs = evs1 @ tail" using t1 t2 tr by simp
  then have "list_all (verified s) evs" using q1 attempts_none[OF q2] by simp
  from verified_mem[OF this ev] missing show ?thesis by blast
qed

lemma commands_distinct2:
  "decompile_command s = Inr c \<Longrightarrow> jarsign_command s \<noteq> Inr c \<and> apksign_command s \<noteq> Inr c"
  by (auto simp: decompile_command_def jarsign_command_def apksign_command_def split: sum.splits)

lemma ran_attempt: "Ran c f rc f' \<in> set evs \<Longrightarrow> c \<in> set (attempts evs)"
  by (induction evs rule: attempts.induct) auto

lemma decompile_apk_cleared:
  assumes "decompile_apk e s = Some (r, s1)" "trace s1 = trace s @ evs" "Ran c f rc f' \<in> set evs"
  shows "cleared s f"
proof -
  let ?r1 = "if os_path_exists (fs s) (extraction_dir s)
             then shutil_rmtree e (extraction_dir s) (fs s) else Inr (fs s)"
  show ?thesis
  proof (cases ?r1)
    case (Inl err)
    then have "s1 = s" using assms(1) by (auto simp add: decompile_apk_def raise_def)
    then show ?thesis using assms(2,3) by simp
  next
    case (Inr f1)
    have cl: "cleared s f1"
      using Inr by (auto simp add: cleared_def shutil_rmtree_def os_path_exists_def
                      split: if_splits option.splits node.splits)
    let ?s1 = "s\<lparr>fs := f1\<rparr>"
    show ?thesis
    proof (cases "os_path_getsize f1 (apk s)")
      case (Inl err)
      then have "s1 = ?s1" using assms(1) Inr
        by (auto simp add: decompile_apk_def raise_def Let_def)
      then show ?thesis using assms(2,3) by simp
    next
      case sz: (Inr n)
      show ?thesis
      proof (cases "decompile_command ?s1")
        case (Inl err)
        then have "s1 = ?s1" using assms(1) Inr sz
          by (auto simp add: decompile_apk_def raise_def Let_def)
        then show ?thesis using assms(2,3) by simp
      next
        case c: (Inr c0)
        then have "run_stage e c0 ?s1 = Some (r, s1)" using assms(1) Inr sz
          by (simp add: decompile_apk_def Let_def)
        then show ?thesis
        proof (cases rule: run_stage_cases)
          case (launch err)
          then show ?thesis using assms(2,3) by auto
        next
          case (fail f2 rc2)
          then show ?thesis using assms(2,3) cl by auto
        next
          case (ok f2)
          then show ?thesis using assms(2,3) cl by auto
        qed
      qed
    qed
  qed
qed

lemma later_stages_not_decompile:
  assumes k: "then_stage (add_network_file e s1)
            (\<lambda>s2. then_stage (add_network_attribute_to_manifest e s2)
              (\<lambda>s3. then_stage (check_compile_sdk_version e s3)
                (\<lambda>s4. then_stage (repackage_apk e s4) (\<lambda>s5. sign_and_align e s5)))) = Some (r, s')"
      and tr: "trace s' = trace s1 @ evs" and ev: "Ran c f rc f' \<in> set evs"
  shows "decompile_command s1 \<noteq> Inr c"
  using k
proof (cases rule: silent_stages)
  case (stop err)
  then show ?thesis using tr ev by simp
next
  case (go s4 v)
  from repack_sign_ok[OF go(4) go(3)] obtain evs' where t': "trace s' = trace s4 @ evs'"
    and p: "prefix (map Inr (attempts evs')) (repackage_command s4 # signing_strategy s4 v)"
    unfolding step_ok_def by auto
  have "evs' = evs" using t' tr go(2) by simp
  then have "c \<in> set (attempts evs')" using ran_attempt[OF ev] by simp
  then have "Inr c \<in> set (map Inr (attempts evs'))" by simp
  then have "Inr c \<in> set (repackage_command s4 # signing_strategy s4 v)"
    using p set_mono_prefix by blast
  then have "Inr c \<in> {repackage_command s1, zipalign_command s1, apksign_command s1, jarsign_command s1}"
    using frame_commands[OF go(1)] by (auto simp add: signing_strategy_def split: if_splits)
  then show ?thesis using commands_distinct(1)[of s1 c] commands_distinct2[of s1 c] by auto
qed

lemma warn_keeps:
  "frame s (if c then s\<lparr>trace := trace s @ w\<rparr> else s) \<and>
   fs (if c then s\<lparr>trace := trace s @ w\<rparr> else s) = fs s \<and>
   compile_sdk (if c then s\<lparr>trace := trace s @ w\<rparr> else s) = compile_sdk s"
  by (simp add: frame_def)

lemma check_dependencies_fields:
  assumes "check_dependencies e s0 = Inr s"
  shows "frame s0 s \<and> fs s = fs s0 \<and> compile_sdk s = compile_sdk s0"
proof -
  define s1 where "s1 = (if \<not> os_path_exists (fs s0) (APKTOOL_JAR s0)
             then s0\<lparr>trace := trace s0 @ [Warning (APKTOOL_JAR s0 @ '' not found in current directory'')]\<rparr>
             else s0)"
  define s2 where "s2 = (if \<not> os_path_exists (fs s1) (KEYSTORE s1)
             then s1\<lparr>trace := trace s1 @ [Warning (KEYSTORE s1 @ '' not found in current directory'')]\<rparr>
             else s1)"
  have 1: "frame s0 s1 \<and> fs s1 = fs s0 \<and> compile_sdk s1 = compile_sdk s0"
    unfolding s1_def by (rule warn_keeps)
  have 2: "frame s1 s2 \<and> fs s2 = fs s1 \<and> compile_sdk s2 = compile_sdk s1"
    unfolding s2_def by (rule warn_keeps)
  have d: "check_dependencies e s0 =
     (case check_tools e (fs s2) (tool_paths s2) [] of
           Inl err \<Rightarrow> Inl err
         | Inr missing_tools \<Rightarrow>
             Inr (if missing_tools \<noteq> []
                  then s2\<lparr>trace := trace s2 @ [Warning ''The following tools were not found'']\<rparr>
                  else s2))"
    unfolding check_dependencies_def Let_def s1_def s2_def by (rule refl)
  have 3: "frame s2 s \<and> fs s = fs s2 \<and> compile_sdk s = compile_sdk s2"
  proof (cases "check_tools e (fs s2) (tool_paths s2) []")
    case (Inl err)
    then show ?thesis using assms unfolding d by simp
  next
    case (Inr m)
    then have "s = (if m \<noteq> []
                  then s2\<lparr>trace := trace s2 @ [Warning ''The following tools were not found'']\<rparr>
                  else s2)" using assms unfolding d by simp
    then show ?thesis using warn_keeps[of s2 "m \<noteq> []"] by simp
  qed
  have "frame s0 s" using 1 2 3 by (simp add: frame_def)
  then show ?thesis using 1 2 3 by simp
qed

lemma init_usable:
  assumes "\<And>err. tp \<noteq> Some (Unusable err)"
  shows "Interceptra_init e a vb tp kf f tr =
     (let tp' = (case tp of
                   Some (Table t) \<Rightarrow> if t \<noteq> [] then dict_update default_tool_paths t
                                     else default_tool_paths
                 | _ \<Rightarrow> default_tool_paths) in
      case dict_get tp' ''keystore'' of Inl err \<Rightarrow> Inl err
      | Inr keystore \<Rightarrow>
      (case dict_get tp' ''apktool'' of Inl err \<Rightarrow> Inl err
       | Inr apktool \<Rightarrow>
         let a' = abspath e (expanduser e a);
             fname = fst (os_path_splitext (os_path_basename a'));
             out = os_path_dirname a'
         in check_dependencies e
              \<lparr>verbose = vb, tool_paths = tp', KEYSTORE = keystore,
               KEYPASS = ''android'', STOREPASS = ''android'', SIGALG = ''SHA1withRSA'',
               DIGESTALG = ''SHA1'', ALIAS = ''androiddebugkey'', APKTOOL_JAR = apktool,
               keep_files = kf, apk = a', file_name = fname, output_dir = out,
               patched_apk = os_path_join out (fname @ ''_patched.apk''),
               zipaligned_apk = os_path_join out (fname @ ''_patched_zipaligned.apk''),
               extraction_dir = os_path_join (os_path_dirname a') fname,
               compile_sdk = None, fs = f, trace = tr\<rparr>))"
proof (cases tp)
  case None
  then show ?thesis unfolding Interceptra_init_def by simp
next
  case (Some v)
  show ?thesis
  proof (cases v)
    case (Table t)
    then show ?thesis unfolding Interceptra_init_def Some by simp
  next
    case (Unusable err)
    then show ?thesis using assms[of err] Some by simp
  qed
qed

lemma init_unusable: "Interceptra_init e a vb (Some (Unusable err)) kf f tr = Inl err"
  by (simp add: Interceptra_init_def)

lemma init_fields:
  assumes "Interceptra_init e a vb tp kf f tr = Inr s"
  shows "apk s = abspath e (expanduser e a) \<and> constructed s \<and> fs s = f \<and> keep_files s = kf \<and>
         compile_sdk s = None"
proof -
  have u: "tp \<noteq> Some (Unusable err)" for err using assms by (auto simp add: init_unusable)
  note Interceptra_init_def = init_usable[OF u]
  let ?tp = "case tp of
               Some (Table t) \<Rightarrow> if t \<noteq> [] then dict_update default_tool_paths t
                                 else default_tool_paths
             | _ \<Rightarrow> default_tool_paths"
  obtain ks where ks: "dict_get ?tp ''keystore'' = Inr ks"
    using assms by (cases "dict_get ?tp ''keystore''") (simp_all add: Interceptra_init_def Let_def)
  obtain at where at: "dict_get ?tp ''apktool'' = Inr at"
    using assms ks by (cases "dict_get ?tp ''apktool''") (simp_all add: Interceptra_init_def Let_def)
  let ?a = "abspath e (expanduser e a)"
  let ?fname = "fst (os_path_splitext (os_path_basename ?a))"
  let ?out = "os_path_dirname ?a"
  let ?s0 = "\<lparr>verbose = vb, tool_paths = ?tp, KEYSTORE = ks,
               KEYPASS = ''android'', STOREPASS = ''android'', SIGALG = ''SHA1withRSA'',
               DIGESTALG = ''SHA1'', ALIAS = ''androiddebugkey'', APKTOOL_JAR = at,
               keep_files = kf, apk = ?a, file_name = ?fname, output_dir = ?out,
               patched_apk = os_path_join ?out (?fname @ ''_patched.apk''),
               zipaligned_apk = os_path_join ?out (?fname @ ''_patched_zipaligned.apk''),
               extraction_dir = os_path_join (os_path_dirname ?a) ?fname,
               compile_sdk = None, fs = f, trace = tr\<rparr>"
  have "check_dependencies e ?s0 = Inr s"
    using assms ks at by (simp add: Interceptra_init_def Let_def)
  from check_dependencies_fields[OF this] show ?thesis
    by (simp add: frame_def constructed_def)
qed

lemma constructed_paths:
  assumes "constructed s"
  shows "patched_apk s = extraction_dir s @ ''_patched.apk''"
    "zipaligned_apk s = extraction_dir s @ ''_patched_zipaligned.apk''"
    "os_path_dirname (extraction_dir s) = os_path_dirname (apk s)"
    "os_path_dirname (patched_apk s) = os_path_dirname (apk s)"
    "os_path_dirname (zipaligned_apk s) = os_path_dirname (apk s)"
proof -
  let ?b = "file_name s"
  have b: "CHR ''/'' \<notin> set ?b" using assms file_name_no_sep by (simp add: constructed_def)
  show "patched_apk s = extraction_dir s @ ''_patched.apk''"
    using assms join_append[OF b, of "''_patched.apk''"] by (simp add: constructed_def)
  show "zipaligned_apk s = extraction_dir s @ ''_patched_zipaligned.apk''"
    using assms join_append[OF b, of "''_patched_zipaligned.apk''"] by (simp add: constructed_def)
  show "os_path_dirname (extraction_dir s) = os_path_dirname (apk s)"
    using assms dirname_join[OF b] by (simp add: constructed_def)
  have "CHR ''/'' \<notin> set (?b @ ''_patched.apk'')" using b by simp
  from dirname_join[OF this] show "os_path_dirname (patched_apk s) = os_path_dirname (apk s)"
    using assms by (simp add: constructed_def)
  have "CHR ''/'' \<notin> set (?b @ ''_patched_zipaligned.apk'')" using b by simp
  from dirname_join[OF this] show "os_path_dirname (zipaligned_apk s) = os_path_dirname (apk s)"
    using assms by (simp add: constructed_def)
qed

lemma cut_frame:
  assumes "cut e s = Some (b, s')"
  shows "frame s s'"
  using assms
proof (cases rule: cut_cases)
  case refused
  then show ?thesis by (simp add: frame_refl)
next
  case (aborted err)
  from stages_step[OF aborted(1)] show ?thesis unfolding step_ok_def by blast
next
  case (finished s1 r)
  from stages_step[OF finished(1)] have "frame s s1" unfolding step_ok_def by blast
  moreover from verify_output_ok[OF finished(2)] have "frame s1 s'" by simp
  ultimately show ?thesis by (rule frame_trans)
qed






lemma isfile_getsize: "os_path_isfile f p \<Longrightarrow> \<exists>n. os_path_getsize f p = Inr n"
  by (auto simp add: os_path_isfile_def os_path_getsize_def split: option.splits node.splits)


lemma run_command_try_total:
  assumes "processes_exit e"
  shows "\<exists>x. run_command_try e c chk s = Some x"
proof (cases "launch e c (fs s)")
  case (Inl err)
  then show ?thesis by (simp add: run_command_try_def)
next
  case (Inr p)
  then obtain k where "\<not> running p k" using assms unfolding processes_exit_def by blast
  from poll_loop_exits[OF this, of 0 "[]" "[]"] obtain a where a: "poll_loop p 0 [] [] = Some a"
    by auto
  obtain outs errs where "a = (outs, errs)" by (cases a)
  then show ?thesis using Inr a by (simp add: run_command_try_def Let_def)
qed

lemma run_stage_total:
  assumes "processes_exit e"
  shows "\<exists>x. run_stage e c s = Some x"
proof -
  from run_command_try_total[OF assms, of c True s] obtain x
    where x: "run_command_try e c True s = Some x" ..
  obtain r s' where "x = (r, s')" by (cases x)
  then show ?thesis using x by (cases r) (simp_all add: run_stage_def run_command_def)
qed

lemma then_stage_total:
  assumes "\<exists>x. r = Some x" "\<And>s1. \<exists>x. k s1 = Some x"
  shows "\<exists>x. then_stage r k = Some x"
proof -
  from assms(1) obtain x where x: "r = Some x" ..
  obtain r1 s1 where xs: "x = (r1, s1)" by (cases x)
  show ?thesis
  proof (cases r1)
    case (Inl err)
    then show ?thesis using x xs by (simp add: then_stage_def)
  next
    case (Inr u)
    then show ?thesis using x xs assms(2)[of s1] by (simp add: then_stage_def)
  qed
qed

lemma decompile_apk_total:
  assumes "processes_exit e"
  shows "\<exists>x. decompile_apk e s = Some x"
  unfolding decompile_apk_def Let_def raise_def
  using run_stage_total[OF assms] by (simp split: sum.splits)

lemma add_network_file_total: "\<exists>x. add_network_file e s = Some x"
  unfolding add_network_file_def Let_def raise_def done_stage_def by (simp split: sum.splits)

lemma add_network_attribute_to_manifest_total:
  "\<exists>x. add_network_attribute_to_manifest e s = Some x"
  unfolding add_network_attribute_to_manifest_def Let_def raise_def done_stage_def
  by (simp split: sum.splits option.splits)

lemma check_compile_sdk_version_total: "\<exists>x. check_compile_sdk_version e s = Some x"
  unfolding check_compile_sdk_version_def done_stage_def by (simp split: sum.splits)

lemma check_exists_total:
  "\<exists>x. (if \<not> os_path_exists (fs s1) (p s1) then raise (FileNotFoundError (p s1)) s1
         else done_stage s1) = Some x"
  by (simp add: raise_def done_stage_def)

lemma repackage_apk_total:
  assumes "processes_exit e"
  shows "\<exists>x. repackage_apk e s = Some x"
proof (cases "repackage_command s")
  case (Inl err)
  then show ?thesis by (simp add: repackage_apk_def raise_def)
next
  case (Inr c)
  have "\<exists>x. then_stage (run_stage e c s)
            (\<lambda>s1. if \<not> os_path_exists (fs s1) (patched_apk s1)
                  then raise (FileNotFoundError (patched_apk s1)) s1
                  else done_stage s1) = Some x"
    by (rule then_stage_total[OF run_stage_total[OF assms]]) (rule check_exists_total)
  then show ?thesis using Inr by (simp add: repackage_apk_def)
qed

lemma jarsign_apk_total:
  assumes "processes_exit e"
  shows "\<exists>x. jarsign_apk e s = Some x"
  unfolding jarsign_apk_def raise_def
  using run_stage_total[OF assms] by (simp split: sum.splits)

lemma apksign_apk_total:
  assumes "processes_exit e"
  shows "\<exists>x. apksign_apk e s = Some x"
  unfolding apksign_apk_def raise_def
  using run_stage_total[OF assms] by (simp split: sum.splits)

lemma zipalign_apk_total:
  assumes "processes_exit e"
  shows "\<exists>x. zipalign_apk e s = Some x"
proof -
  have "\<exists>x. then_stage (run_stage e c s1)
            (\<lambda>s2. if \<not> os_path_exists (fs s2) (zipaligned_apk s2)
                  then raise (FileNotFoundError (zipaligned_apk s2)) s2
                  else done_stage s2) = Some x" for c s1
    by (rule then_stage_total[OF run_stage_total[OF assms]]) (rule check_exists_total)
  then show ?thesis
    unfolding zipalign_apk_def Let_def raise_def by (simp split: sum.splits)
qed

lemma return_value_total: "\<exists>x. return_value v s = Some x"
  by (simp add: return_value_def)

lemma sign_and_align_total:
  assumes "processes_exit e"
  shows "\<exists>x. sign_and_align e s = Some x"
proof (cases "compile_sdk s")
  case None
  then show ?thesis by (simp add: sign_and_align_def raise_def)
next
  case (Some v)
  have 1: "\<exists>x. then_stage (zipalign_apk e s)
                 (\<lambda>s1. then_stage (apksign_apk e s1) (\<lambda>s2. return_value (zipaligned_apk s2) s2)) = Some x"
    by (intro then_stage_total zipalign_apk_total apksign_apk_total return_value_total assms)
  have 2: "\<exists>x. then_stage (jarsign_apk e s)
                 (\<lambda>s1. then_stage (zipalign_apk e s1) (\<lambda>s2. return_value (zipaligned_apk s2) s2)) = Some x"
    by (intro then_stage_total zipalign_apk_total jarsign_apk_total return_value_total assms)
  show ?thesis using Some 1 2 by (simp add: sign_and_align_def)
qed

lemma stages_total:
  assumes "processes_exit e"
  shows "\<exists>x. stages e s = Some x"
  unfolding stages_def
  by (intro then_stage_total decompile_apk_total add_network_file_total
        add_network_attribute_to_manifest_total check_compile_sdk_version_total
        repackage_apk_total sign_and_align_total assms)

lemma verify_output_total: "\<exists>x. verify_output e final s = Some x"
  unfolding verify_output_def Let_def raise_def return_value_def by (simp split: sum.splits)

lemma cut_total:
  assumes "processes_exit e"
  shows "\<exists>b s'. cut e s = Some (b, s')"
proof (cases "os_path_isfile (fs s) (apk s)")
  case False
  then show ?thesis by (auto simp add: cut_def)
next
  case True
  show ?thesis
  proof (cases "os_path_getsize (fs s) (apk s)")
    case (Inl err)
    then show ?thesis using True by (auto simp add: cut_def cut_try_def raise_def)
  next
    case (Inr n)
    from stages_total[OF assms, of s] obtain x where x: "stages e s = Some x" ..
    obtain r s1 where xs: "x = (r, s1)" by (cases x)
    show ?thesis
    proof (cases r)
      case (Inl err)
      then show ?thesis using True Inr x xs by (auto simp add: cut_def cut_try_def)
    next
      case fin: (Inr final)
      from verify_output_total[of e final s1] obtain y where y: "verify_output e final s1 = Some y" ..
      obtain r2 s2 where ys: "y = (r2, s2)" by (cases y)
      show ?thesis using True Inr x xs fin y ys
        by (cases r2) (auto simp add: cut_def cut_try_def)
    qed
  qed
qed

lemma check_dependencies_isl:
  "isl (check_dependencies e s) = isl (check_tools e (fs s) (tool_paths s) [])"
proof -
  define s1 where "s1 = (if \<not> os_path_exists (fs s) (APKTOOL_JAR s)
             then s\<lparr>trace := trace s @ [Warning (APKTOOL_JAR s @ '' not found in current directory'')]\<rparr>
             else s)"
  define s2 where "s2 = (if \<not> os_path_exists (fs s1) (KEYSTORE s1)
             then s1\<lparr>trace := trace s1 @ [Warning (KEYSTORE s1 @ '' not found in current directory'')]\<rparr>
             else s1)"
  have 1: "frame s s1 \<and> fs s1 = fs s \<and> compile_sdk s1 = compile_sdk s"
    unfolding s1_def by (rule warn_keeps)
  have 2: "frame s1 s2 \<and> fs s2 = fs s1 \<and> compile_sdk s2 = compile_sdk s1"
    unfolding s2_def by (rule warn_keeps)
  have d: "check_dependencies e s =
     (case check_tools e (fs s2) (tool_paths s2) [] of
           Inl err \<Rightarrow> Inl err
         | Inr missing_tools \<Rightarrow>
             Inr (if missing_tools \<noteq> []
                  then s2\<lparr>trace := trace s2 @ [Warning ''The following tools were not found'']\<rparr>
                  else s2))"
    unfolding check_dependencies_def Let_def s1_def s2_def by (rule refl)
  have "fs s2 = fs s" "tool_paths s2 = tool_paths s" using 1 2 by (simp_all add: frame_def)
  then show ?thesis unfolding d by (cases "check_tools e (fs s) (tool_paths s) []") simp_all
qed

lemma init_isl_path:
  "isl (Interceptra_init e a vb tp kf f tr) = isl (Interceptra_init e a' vb tp kf f tr)"
proof (cases "\<exists>err. tp = Some (Unusable err)")
  case True
  then show ?thesis by (auto simp add: init_unusable)
next
  case False
  then have u: "tp \<noteq> Some (Unusable err)" for err by simp
  note Interceptra_init_def = init_usable[OF u]
  let ?tp = "case tp of
               Some (Table t) \<Rightarrow> if t \<noteq> [] then dict_update default_tool_paths t
                                 else default_tool_paths
             | _ \<Rightarrow> default_tool_paths"
  show ?thesis
  proof (cases "dict_get ?tp ''keystore''")
    case (Inl err)
    then show ?thesis by (simp add: Interceptra_init_def Let_def)
  next
    case ks: (Inr ks)
    show ?thesis
    proof (cases "dict_get ?tp ''apktool''")
      case (Inl err)
      then show ?thesis using ks by (simp add: Interceptra_init_def Let_def)
    next
      case (Inr at)
      then show ?thesis using ks
        by (simp add: Interceptra_init_def Let_def check_dependencies_isl)
    qed
  qed
qed

lemma cut_refuses:
  assumes "\<not> os_path_isfile (fs s) (apk s)"
  shows "cut e s = Some (False, s)"
  using assms by (simp add: cut_def)

lemma consume_args_code:
  "consume_args xs ns = Inl code \<Longrightarrow> code = 0 \<or> code = 2"
  by (induction xs ns rule: consume_args.induct) simp_all

lemma handle_args_code:
  assumes "handle_args argv = Inl code"
  shows "code = 0 \<or> code = 2"
proof -
  let ?ns0 = "\<lparr>ns_apk = None, ns_verbose = False, ns_keep_files = False,
              ns_tools = None, ns_extras = []\<rparr>"
  show ?thesis
  proof (cases "consume_args argv ?ns0")
    case (Inl c)
    then have "code = c" using assms by (simp add: handle_args_def)
    then show ?thesis using consume_args_code[OF Inl] by simp
  next
    case (Inr ns)
    then show ?thesis using assms
      by (cases "ns_apk ns") (auto simp add: handle_args_def split: if_splits)
  qed
qed

section \<open>Runs in the concrete world\<close>

lemma py_int_examples:
  "py_int demo_decimal 4300 [50, 57] = Some 29"
  "py_int demo_decimal 4300 [51, 48] = Some 30"
  "py_int demo_decimal 4300 [0xA0, 50, 57] = Some 29"
  "py_int demo_decimal 4300 [50, 57, 0x2009] = Some 29"
  "py_int demo_decimal 4300 [0x662, 0x669] = Some 29"
  "py_int demo_decimal 4300 [32, 43, 50, 95, 57, 10] = Some 29"
  "py_int demo_decimal 4300 [45, 53] = Some (- 5)"
  "py_int demo_decimal 4300 [48, 50, 57] = Some 29"
  "py_int demo_decimal 4300 [0x1C, 53] = None"
  "py_int demo_decimal 4300 [50, 95, 95, 57] = None"
  "py_int demo_decimal 4300 [95, 50] = None"
  "py_int demo_decimal 4300 [50, 95] = None"
  "py_int demo_decimal 4300 [43, 32, 50] = None"
  "py_int demo_decimal 4300 [50, 57, 46, 48] = None"
  "py_int demo_decimal 4300 [50, 57, 0] = None"
  "py_int demo_decimal 4300 [0xB2] = None"
  "py_int demo_decimal 4300 [97, 98, 99] = None"
  "py_int demo_decimal 4300 [] = None"
  by (simp_all add: py_int_def to_ascii_def unicode_space_def demo_decimal_def ascii_space_def
        parse_number_def digit_or_underscore_def is_digit_def horner_def too_many_digits_def
        Let_def)

lemma poll_loop_done: "\<not> running p k \<Longrightarrow> poll_loop p k outs errs = Some (outs, errs)"
  by (subst poll_loop.simps) simp

lemma tool_env_fields:
  "undeletable (tool_env st ef lk v) = (\<lambda>p. lk)" "unwritable (tool_env st ef lk v) = (\<lambda>p. False)"
  "xml_parse (tool_env st ef lk v) = (\<lambda>c. Some (demo_doc v))"
  "xml_tostring (tool_env st ef lk v) = (\<lambda>r. ''m'')"
  "abspath (tool_env st ef lk v) = (\<lambda>p. p)" "expanduser (tool_env st ef lk v) = (\<lambda>p. p)"
  "which (tool_env st ef lk v) = (\<lambda>p. Found)" "json_loads (tool_env st ef lk v) = (\<lambda>t. None)"
  "unreadable (tool_env st ef lk v) = (\<lambda>p. False)"
  "unicode_decimal (tool_env st ef lk v) = demo_decimal" "int_max_str_digits (tool_env st ef lk v) = 4300"
  by (simp_all add: tool_env_def)

lemma tool_env_exits: "processes_exit (tool_env st ef lk v)"
  by (auto simp add: processes_exit_def tool_env_def demo_process_def)

lemma tool_env_run_ok:
  "st c = 0 \<Longrightarrow> run_stage (tool_env st ef lk v) c s =
     Some (Inr (), s\<lparr>fs := ef c (fs s), trace := trace s @ [Ran c (fs s) 0 (ef c (fs s))]\<rparr>)"
  by (simp add: run_stage_def run_command_def run_command_try_def tool_env_def demo_process_def
        poll_loop_done Let_def)

lemma tool_env_run_fail:
  "st c \<noteq> 0 \<Longrightarrow> run_stage (tool_env st ef lk v) c s =
     Some (Inl (CommandError (st c) [] []),
           s\<lparr>fs := ef c (fs s), trace := trace s @ [Ran c (fs s) (st c) (ef c (fs s))]\<rparr>)"
  by (simp add: run_stage_def run_command_def run_command_try_def tool_env_def demo_process_def
        poll_loop_done Let_def)

lemma demo_paths:
  "os_path_basename ''/w/app.apk'' = ''app.apk''"
  "os_path_dirname ''/w/app.apk'' = ''/w''"
  "os_path_splitext ''app.apk'' = (''app'', ''.apk'')"
  "os_path_join ''/w'' ''app'' = ''/w/app''"
  "os_path_join ''/w'' ''app_patched.apk'' = ''/w/app_patched.apk''"
  "os_path_join ''/w'' ''app_patched_zipaligned.apk'' = ''/w/app_patched_zipaligned.apk''"
  "os_path_join ''/w/app'' ''res/xml'' = ''/w/app/res/xml''"
  "os_path_join ''/w/app/res/xml'' ''network_security_config.xml'' = ''/w/app/res/xml/network_security_config.xml''"
  "os_path_join ''/w/app'' ''AndroidManifest.xml'' = ''/w/app/AndroidManifest.xml''"
  "os_path_dirname ''/w/app_patched_zipaligned.apk'' = ''/w''"
  "os_path_dirname ''/w/app_patched.apk'' = ''/w''"
  "os_path_dirname ''/w/app'' = ''/w''"
  "ancestors ''/w/app/res/xml'' = [''/w'', ''/w/app'', ''/w/app/res'']"
  "ancestors ''/w'' = []"
  by code_simp+

lemma demo_under:
  "\<not> under ''/w/app'' ''/w''" "\<not> under ''/w/app'' ''/w/app.apk''"
  "\<not> under ''/w/app'' ''/w/app_patched.apk''"
  "\<not> under ''/w/app'' ''/w/app_patched_zipaligned.apk''"
  "\<not> under ''/w/app'' ''apktool_2.11.0.jar''" "\<not> under ''/w/app'' ''debug.keystore''"
  "under ''/w/app'' ''/w/app/AndroidManifest.xml''" "under ''/w/app'' ''/w/app/res''"
  "under ''/w/app'' ''/w/app/res/xml''"
  "under ''/w/app'' ''/w/app/res/xml/network_security_config.xml''"
  "under ''/w/app'' ''/w/app/old.txt''"
  by code_simp+

lemma demo_fields:
  "verbose demo_state = False" "tool_paths demo_state = default_tool_paths"
  "KEYSTORE demo_state = ''debug.keystore''" "KEYPASS demo_state = ''android''"
  "STOREPASS demo_state = ''android''" "SIGALG demo_state = ''SHA1withRSA''"
  "DIGESTALG demo_state = ''SHA1''" "ALIAS demo_state = ''androiddebugkey''"
  "APKTOOL_JAR demo_state = ''apktool_2.11.0.jar''" "keep_files demo_state = False"
  "apk demo_state = ''/w/app.apk''" "file_name demo_state = ''app''"
  "output_dir demo_state = ''/w''" "patched_apk demo_state = ''/w/app_patched.apk''"
  "zipaligned_apk demo_state = ''/w/app_patched_zipaligned.apk''"
  "extraction_dir demo_state = ''/w/app''" "compile_sdk demo_state = None"
  "fs demo_state = demo_fs" "trace demo_state = []"
  by (simp_all add: demo_state_def)

lemma demo_commands:
  assumes "frame demo_state s"
  shows "decompile_command s =
     Inr [''java'', ''-jar'', ''apktool_2.11.0.jar'', ''-f'', ''d'', ''/w/app.apk'', ''-o'', ''/w/app'']"
  "repackage_command s =
     Inr [''java'', ''-jar'', ''apktool_2.11.0.jar'', ''-f'', ''b'', ''/w/app'', ''-o'',
          ''/w/app_patched.apk'', ''--use-aapt2'']"
  "jarsign_command s =
     Inr [''jarsigner'', ''-verbose'', ''-keystore'', ''debug.keystore'', ''-keypass'', ''android'',
          ''-storepass'', ''android'', ''-sigalg'', ''SHA1withRSA'', ''-digestalg'', ''SHA1'',
          ''/w/app_patched.apk'', ''androiddebugkey'']"
  "apksign_command s =
     Inr [''apksigner'', ''sign'', ''--ks'', ''debug.keystore'', ''--ks-key-alias'',
          ''androiddebugkey'', ''--ks-pass'', ''pass:android'', ''/w/app_patched_zipaligned.apk'']"
  "zipalign_command s =
     Inr [''zipalign'', ''-p'', ''-f'', ''4'', ''/w/app_patched.apk'', ''/w/app_patched_zipaligned.apk'']"
  using assms
  by (simp_all add: decompile_command_def repackage_command_def jarsign_command_def
        apksign_command_def zipalign_command_def frame_def demo_fields default_tool_paths_def
        dict_get_def)

lemma demo_init:
  "Interceptra_init (tool_env st ef lk v) ''/w/app.apk'' False None False demo_fs [] = Inr demo_state"
  by (simp add: Interceptra_init_def Let_def default_tool_paths_def dict_get_def tool_env_fields
        demo_paths check_dependencies_def os_path_exists_def demo_fs_def demo_state_def)


lemmas demo_eval =
  cut_def cut_try_def stages_def then_stage_def raise_def done_stage_def return_value_def
  decompile_apk_def add_network_file_def add_network_attribute_to_manifest_def
  check_compile_sdk_version_def check_compile_sdk_version_try_def repackage_apk_def
  jarsign_apk_def apksign_apk_def zipalign_apk_def sign_and_align_def verify_output_def
  cleanup_files_def tool_env_run_ok tool_env_run_fail demo_commands demo_paths demo_under py_int_examples
  os_path_exists_def os_path_isfile_def os_path_getsize_def shutil_rmtree_def os_remove_def
  os_makedirs_def write_file_def ElementTree_parse_def tool_env_fields demo_fields frame_def
  demo_effect_def unpack_effect_def demo_doc_def demo_fs_def Let_def

lemma run_result:
  "map_option (\<lambda>(b, s'). (b, compile_sdk s')) r = Some (b0, k) \<Longrightarrow>
     \<exists>s'. r = Some (b0, s') \<and> compile_sdk s' = k"
  by (cases r) auto

lemma demo_cut_29:
  "map_option (\<lambda>(b, s'). (b, compile_sdk s')) (cut (demo_env [50, 57]) demo_state) = Some (True, Some 29)"
  by (simp add: demo_eval demo_env_def)

lemma demo_cut_30:
  "map_option (\<lambda>(b, s'). (b, compile_sdk s')) (cut (demo_env [51, 48]) demo_state) = Some (True, Some 30)"
  by (simp add: demo_eval demo_env_def)

lemma repack_fails_run:
  "\<exists>s' f. cut repack_fails_env demo_state = Some (False, s') \<and>
     attempts (trace s') =
       [[''java'', ''-jar'', ''apktool_2.11.0.jar'', ''-f'', ''d'', ''/w/app.apk'', ''-o'', ''/w/app''],
        [''java'', ''-jar'', ''apktool_2.11.0.jar'', ''-f'', ''b'', ''/w/app'', ''-o'',
         ''/w/app_patched.apk'', ''--use-aapt2'']] \<and>
     Ran [''java'', ''-jar'', ''apktool_2.11.0.jar'', ''-f'', ''b'', ''/w/app'', ''-o'',
          ''/w/app_patched.apk'', ''--use-aapt2''] f 1 f \<in> set (trace s')"
  by (simp add: demo_eval repack_fails_env_def)

lemma unpack_only_run:
  "\<exists>s' f. cut unpack_only_env demo_state = Some (False, s') \<and>
     Ran [''java'', ''-jar'', ''apktool_2.11.0.jar'', ''-f'', ''b'', ''/w/app'', ''-o'',
          ''/w/app_patched.apk'', ''--use-aapt2''] f 0 f \<in> set (trace s') \<and>
     \<not> os_path_exists f ''/w/app_patched.apk''"
  by (simp add: demo_eval unpack_only_env_def)

lemma stale_run:
  "\<exists>s' f. cut failing_env (demo_state\<lparr>fs := stale_fs\<rparr>) = Some (False, s') \<and>
     Ran [''java'', ''-jar'', ''apktool_2.11.0.jar'', ''-f'', ''d'', ''/w/app.apk'', ''-o'', ''/w/app'']
       f 1 f \<in> set (trace s')"
  by (simp add: demo_eval failing_env_def stale_fs_def)



section \<open>The claims\<close>

subsection \<open>The detected platform version\<close>

text \<open>
  Claim C2. The detect-version stage always completes normally: it sets
  \<open>compile_sdk\<close> to the integer value of the \<open>android:compileSdkVersion\<close> attribute of
  the manifest's root element when the manifest parses, the attribute is there and
  \<open>int\<close> accepts its value, and to 30 in every other case; nothing else changes. On an
  attribute written in ASCII decimal digits (not more of them than the interpreter's
  limit allows) \<open>int\<close> gives the number the digits denote.
\<close>

theorem check_compile_sdk_version_defaults:
  "check_compile_sdk_version e s =
     Some (Inr (), s\<lparr>compile_sdk := Some
       (case ElementTree_parse e (os_path_join (extraction_dir s) ''AndroidManifest.xml'') (fs s) of
          Inl err \<Rightarrow> 30
        | Inr root \<Rightarrow>
            (case map_of (attrib root) (android_ns @ ''compileSdkVersion'') of
               None \<Rightarrow> 30
             | Some v \<Rightarrow>
                 (case py_int (unicode_decimal e) (int_max_str_digits e) v of
                    None \<Rightarrow> 30
                  | Some n \<Rightarrow> n)))\<rparr>) \<and>
   (\<forall>ds. ds \<noteq> [] \<and> list_all (\<lambda>d. d < 10) ds \<and>
         \<not> too_many_digits (int_max_str_digits e) (length ds) \<longrightarrow>
         py_int (unicode_decimal e) (int_max_str_digits e) (map (\<lambda>d. 48 + d) ds) =
           Some (int (decimal_value ds)))"
proof -
  have "check_compile_sdk_version e s =
     Some (Inr (), s\<lparr>compile_sdk := Some
       (case ElementTree_parse e (os_path_join (extraction_dir s) ''AndroidManifest.xml'') (fs s) of
          Inl err \<Rightarrow> 30
        | Inr root \<Rightarrow>
            (case map_of (attrib root) (android_ns @ ''compileSdkVersion'') of
               None \<Rightarrow> 30
             | Some v \<Rightarrow>
                 (case py_int (unicode_decimal e) (int_max_str_digits e) v of
                    None \<Rightarrow> 30
                  | Some n \<Rightarrow> n)))\<rparr>)"
    by (simp add: check_compile_sdk_version_def check_compile_sdk_version_try_def done_stage_def
          Let_def split: sum.splits option.splits)
  then show ?thesis using py_int_digits by blast
qed

text \<open>Instances: the attribute values \<open>29\<close>, \<open>29\<close> after a no-break space, \<open>29\<close> in Arabic-Indic digits, \<open>-5\<close>, \<open>abc\<close> and \<open>5\<close> after U+001C, and a run without a manifest.\<close>

theorem check_compile_sdk_version_defaults_witness:
  "check_compile_sdk_version (demo_env [50, 57]) (demo_state\<lparr>fs := manifest_fs\<rparr>) =
     Some (Inr (), demo_state\<lparr>fs := manifest_fs, compile_sdk := Some 29\<rparr>) \<and>
   check_compile_sdk_version (demo_env [0xA0, 50, 57]) (demo_state\<lparr>fs := manifest_fs\<rparr>) =
     Some (Inr (), demo_state\<lparr>fs := manifest_fs, compile_sdk := Some 29\<rparr>) \<and>
   check_compile_sdk_version (demo_env [0x662, 0x669]) (demo_state\<lparr>fs := manifest_fs\<rparr>) =
     Some (Inr (), demo_state\<lparr>fs := manifest_fs, compile_sdk := Some 29\<rparr>) \<and>
   check_compile_sdk_version (demo_env [45, 53]) (demo_state\<lparr>fs := manifest_fs\<rparr>) =
     Some (Inr (), demo_state\<lparr>fs := manifest_fs, compile_sdk := Some (- 5)\<rparr>) \<and>
   check_compile_sdk_version (demo_env [97, 98, 99]) (demo_state\<lparr>fs := manifest_fs\<rparr>) =
     Some (Inr (), demo_state\<lparr>fs := manifest_fs, compile_sdk := Some 30\<rparr>) \<and>
   check_compile_sdk_version (demo_env [0x1C, 53]) (demo_state\<lparr>fs := manifest_fs\<rparr>) =
     Some (Inr (), demo_state\<lparr>fs := manifest_fs, compile_sdk := Some 30\<rparr>) \<and>
   check_compile_sdk_version (demo_env [50, 57]) demo_state =
     Some (Inr (), demo_state\<lparr>compile_sdk := Some 30\<rparr>)"
proof -
  let ?s = "demo_state\<lparr>fs := manifest_fs\<rparr>"
  have p: "ElementTree_parse (demo_env v)
             (os_path_join (extraction_dir demo_state) ''AndroidManifest.xml'') manifest_fs =
           Inr (demo_doc v)"
    for v
    by (simp add: ElementTree_parse_def demo_env_def tool_env_fields demo_fields demo_paths
          manifest_fs_def)
  have q: "ElementTree_parse (demo_env v)
             (os_path_join (extraction_dir demo_state) ''AndroidManifest.xml'') (fs demo_state) =
           Inl (FileNotFoundError ''/w/app/AndroidManifest.xml'')" for v
    by (simp add: ElementTree_parse_def demo_fields demo_paths demo_fs_def)
  have a: "map_of (attrib (demo_doc v)) (android_ns @ ''compileSdkVersion'') = Some v" for v
    by (simp add: demo_doc_def)
  have f: "unicode_decimal (demo_env v) = demo_decimal" "int_max_str_digits (demo_env v) = 4300"
    for v
    by (simp_all add: demo_env_def tool_env_fields)
  have d: "decimal_value [2, 9] = 29"
    by (simp add: horner_decimal_value[symmetric] horner_def)
  note t = check_compile_sdk_version_defaults
  have "py_int demo_decimal 4300 (map (\<lambda>d. 48 + d) [2, 9]) = Some (int (decimal_value [2, 9]))"
    using t[of "demo_env [50, 57]" ?s, THEN conjunct2, rule_format, of "[2, 9]"]
    unfolding f by (simp add: too_many_digits_def)
  then have i: "py_int demo_decimal 4300 [50, 57] = Some 29" by (simp add: d)
  have 1: "check_compile_sdk_version (demo_env [50, 57]) ?s =
             Some (Inr (), ?s\<lparr>compile_sdk := Some 29\<rparr>)"
    using t[of "demo_env [50, 57]" ?s] by (simp add: p a f i)
  have 2: "check_compile_sdk_version (demo_env [0xA0, 50, 57]) ?s =
             Some (Inr (), ?s\<lparr>compile_sdk := Some 29\<rparr>)"
    using t[of "demo_env [0xA0, 50, 57]" ?s] by (simp add: p a f py_int_examples)
  have 3: "check_compile_sdk_version (demo_env [0x662, 0x669]) ?s =
             Some (Inr (), ?s\<lparr>compile_sdk := Some 29\<rparr>)"
    using t[of "demo_env [0x662, 0x669]" ?s] by (simp add: p a f py_int_examples)
  have 4: "check_compile_sdk_version (demo_env [45, 53]) ?s =
             Some (Inr (), ?s\<lparr>compile_sdk := Some (- 5)\<rparr>)"
    using t[of "demo_env [45, 53]" ?s] by (simp add: p a f py_int_examples)
  have 5: "check_compile_sdk_version (demo_env [97, 98, 99]) ?s =
             Some (Inr (), ?s\<lparr>compile_sdk := Some 30\<rparr>)"
    using t[of "demo_env [97, 98, 99]" ?s] by (simp add: p a f py_int_examples)
  have 6: "check_compile_sdk_version (demo_env [0x1C, 53]) ?s =
             Some (Inr (), ?s\<lparr>compile_sdk := Some 30\<rparr>)"
    using t[of "demo_env [0x1C, 53]" ?s] by (simp add: p a f py_int_examples)
  have 7: "check_compile_sdk_version (demo_env [50, 57]) demo_state =
             Some (Inr (), demo_state\<lparr>compile_sdk := Some 30\<rparr>)"
    using t[of "demo_env [50, 57]" demo_state] unfolding q by simp
  from 1 2 3 4 5 6 7 show ?thesis by simp
qed

subsection \<open>Failure of an external tool\<close>

text \<open>
  Claim C3. When a run of \<open>cut\<close> has executed a command that exited with a non-zero
  status, the run reports failure, that command is the last thing the run did (nothing
  is executed after it, so no stage follows and the command is not run again), the file
  system is the one the command left, and every command executed before it had exited
  with status 0.
\<close>

theorem nonzero_exit_aborts_run:
  assumes run: "cut e s = Some (b, s')" and tr: "trace s' = trace s @ evs"
      and ev: "Ran c f rc f' \<in> set evs" and rc: "rc \<noteq> 0"
  shows "\<not> b \<and> fs s' = f' \<and>
         (\<exists>pre. evs = pre @ [Ran c f rc f'] \<and>
                (\<forall>c0 f0 rc0 f0'. Ran c0 f0 rc0 f0' \<in> set pre \<longrightarrow> rc0 = 0))"
  using run
proof (cases rule: cut_cases)
  case refused
  then show ?thesis using tr ev by simp
next
  case (aborted err)
  from stages_step[OF aborted(1)] obtain v where "step_ok (pipeline_plan s v) s (Inl err :: error + string) s'" ..
  then obtain evs' where t': "trace s' = trace s @ evs'"
    and bad: "list_all quiet evs' \<or>
            (\<exists>pre c f rc. evs' = pre @ [Ran c f rc (fs s')] \<and> rc \<noteq> 0 \<and> list_all quiet pre)"
    unfolding step_ok_def by auto
  have e: "evs' = evs" using t' tr by simp
  from bad consider "list_all quiet evs"
    | pre c0 f0 rc0 where "evs = pre @ [Ran c0 f0 rc0 (fs s')]" "rc0 \<noteq> 0" "list_all quiet pre"
    unfolding e by blast
  then show ?thesis
  proof cases
    case 1
    from quiet_mem[OF 1 ev] rc show ?thesis by simp
  next
    case 2
    have "Ran c f rc f' \<notin> set pre" using quiet_mem[OF 2(3)] rc by blast
    then have eq: "Ran c f rc f' = Ran c0 f0 rc0 (fs s')" using ev 2(1) by simp
    have "\<forall>c0 f0 rc0 f0'. Ran c0 f0 rc0 f0' \<in> set pre \<longrightarrow> rc0 = 0"
      using quiet_mem[OF 2(3)] by blast
    then show ?thesis using aborted(2) eq 2(1) by auto
  qed
next
  case (finished s1 r)
  from stages_step[OF finished(1)] obtain v
    where "step_ok (pipeline_plan s v) s (Inr (zipaligned_apk s) :: error + string) s1" ..
  then obtain evs1 where t1: "trace s1 = trace s @ evs1" and q1: "list_all quiet evs1"
    unfolding step_ok_def by auto
  from verify_output_ok[OF finished(2)] obtain tail
    where t2: "trace s' = trace s1 @ tail" and q2: "attempts tail = []" by blast
  have "evs = evs1 @ tail" using t1 t2 tr by simp
  then have "list_all quiet evs" using q1 attempts_none[OF q2] by simp
  from quiet_mem[OF this ev] rc show ?thesis by simp
qed

text \<open>An instance: the unpack tool succeeds and the repack tool exits with status 1.\<close>

theorem nonzero_exit_aborts_run_witness:
  "\<exists>s' f. cut repack_fails_env demo_state = Some (False, s') \<and>
     attempts (trace s') =
       [[''java'', ''-jar'', ''apktool_2.11.0.jar'', ''-f'', ''d'', ''/w/app.apk'', ''-o'', ''/w/app''],
        [''java'', ''-jar'', ''apktool_2.11.0.jar'', ''-f'', ''b'', ''/w/app'', ''-o'',
         ''/w/app_patched.apk'', ''--use-aapt2'']] \<and>
     last (trace s') =
       Ran [''java'', ''-jar'', ''apktool_2.11.0.jar'', ''-f'', ''b'', ''/w/app'', ''-o'',
            ''/w/app_patched.apk'', ''--use-aapt2''] f 1 f \<and>
     fs s' = f"
proof -
  let ?rep = "[''java'', ''-jar'', ''apktool_2.11.0.jar'', ''-f'', ''b'', ''/w/app'', ''-o'',
               ''/w/app_patched.apk'', ''--use-aapt2'']"
  from repack_fails_run obtain s' f
    where run: "cut repack_fails_env demo_state = Some (False, s')"
      and att: "attempts (trace s') =
        [[''java'', ''-jar'', ''apktool_2.11.0.jar'', ''-f'', ''d'', ''/w/app.apk'', ''-o'', ''/w/app''],
         ?rep]"
      and ev: "Ran ?rep f 1 f \<in> set (trace s')"
    by blast
  have tr: "trace s' = trace demo_state @ trace s'" by (simp add: demo_fields)
  have rc: "(1::int) \<noteq> 0" by simp
  from nonzero_exit_aborts_run[OF run tr ev rc]
  obtain pre where "fs s' = f" "trace s' = pre @ [Ran ?rep f 1 f]" by blast
  then have "last (trace s') = Ran ?rep f 1 f" "fs s' = f" by simp_all
  with run att show ?thesis by blast
qed

subsection \<open>The signing strategy\<close>

text \<open>
  Claim C1. With detected platform version \<open>v\<close>, the commands a run attempts are, in
  order, a prefix of: unpack, repack, and then align followed by \<open>apksigner\<close> on the
  aligned archive when \<open>v \<ge> 30\<close>, or \<open>jarsigner\<close> on the intermediate archive followed by
  align when \<open>v < 30\<close>. A successful run attempts all of them, and the artifact it
  reports, which exists, is the aligned archive \<open>zipaligned_apk\<close> in both branches.
\<close>

theorem signing_strategy_selected:
  assumes run: "cut e s = Some (b, s')" and tr: "trace s' = trace s @ evs"
      and v: "compile_sdk s' = Some v"
  shows "prefix (map Inr (attempts evs)) (pipeline_plan s v) \<and>
         (b \<longrightarrow> map Inr (attempts evs) = pipeline_plan s v \<and>
                last evs = Completed (zipaligned_apk s) \<and>
                os_path_exists (fs s') (zipaligned_apk s))"
  using run
proof (cases rule: cut_cases)
  case refused
  then show ?thesis using tr by simp
next
  case (aborted err)
  from stages_step_sdk[OF aborted(1) v] obtain evs' where "trace s' = trace s @ evs'"
    "prefix (map Inr (attempts evs')) (pipeline_plan s v)"
    unfolding step_ok_def by auto
  then show ?thesis using tr aborted(2) by simp
next
  case (finished s1 r)
  note vo = verify_output_ok[OF finished(2)]
  then have v1: "compile_sdk s1 = Some v" using v by simp
  from stages_step_sdk[OF finished(1) v1] obtain evs1 where t1: "trace s1 = trace s @ evs1"
    and p1: "map Inr (attempts evs1) = pipeline_plan s v"
    unfolding step_ok_def by auto
  from vo obtain tail where t2: "trace s' = trace s1 @ tail" and q2: "attempts tail = []"
    and l2: "r = Inr True \<longrightarrow> tail \<noteq> [] \<and> last tail = Completed (zipaligned_apk s)" by blast
  have e: "evs = evs1 @ tail" using t1 t2 tr by simp
  have "map Inr (attempts evs) = pipeline_plan s v" using e p1 q2 by (simp add: attempts_append)
  moreover have "b \<longrightarrow> last evs = Completed (zipaligned_apk s)" using l2 finished(3) e by simp
  moreover have "b \<longrightarrow> os_path_exists (fs s') (zipaligned_apk s)" using vo finished(3) by simp
  ultimately show ?thesis by simp
qed

text \<open>Instances: complete runs on manifests with \<open>compileSdkVersion\<close> 29 and 30.\<close>

theorem signing_strategy_selected_witness:
  "(\<exists>s'. cut (demo_env [50, 57]) demo_state = Some (True, s') \<and> compile_sdk s' = Some 29 \<and>
      attempts (trace s') =
        [[''java'', ''-jar'', ''apktool_2.11.0.jar'', ''-f'', ''d'', ''/w/app.apk'', ''-o'', ''/w/app''],
         [''java'', ''-jar'', ''apktool_2.11.0.jar'', ''-f'', ''b'', ''/w/app'', ''-o'',
          ''/w/app_patched.apk'', ''--use-aapt2''],
         [''jarsigner'', ''-verbose'', ''-keystore'', ''debug.keystore'', ''-keypass'', ''android'',
          ''-storepass'', ''android'', ''-sigalg'', ''SHA1withRSA'', ''-digestalg'', ''SHA1'',
          ''/w/app_patched.apk'', ''androiddebugkey''],
         [''zipalign'', ''-p'', ''-f'', ''4'', ''/w/app_patched.apk'',
          ''/w/app_patched_zipaligned.apk'']] \<and>
      last (trace s') = Completed ''/w/app_patched_zipaligned.apk'' \<and>
      os_path_exists (fs s') ''/w/app_patched_zipaligned.apk'') \<and>
   (\<exists>s'. cut (demo_env [51, 48]) demo_state = Some (True, s') \<and> compile_sdk s' = Some 30 \<and>
      attempts (trace s') =
        [[''java'', ''-jar'', ''apktool_2.11.0.jar'', ''-f'', ''d'', ''/w/app.apk'', ''-o'', ''/w/app''],
         [''java'', ''-jar'', ''apktool_2.11.0.jar'', ''-f'', ''b'', ''/w/app'', ''-o'',
          ''/w/app_patched.apk'', ''--use-aapt2''],
         [''zipalign'', ''-p'', ''-f'', ''4'', ''/w/app_patched.apk'',
          ''/w/app_patched_zipaligned.apk''],
         [''apksigner'', ''sign'', ''--ks'', ''debug.keystore'', ''--ks-key-alias'',
          ''androiddebugkey'', ''--ks-pass'', ''pass:android'', ''/w/app_patched_zipaligned.apk'']] \<and>
      last (trace s') = Completed ''/w/app_patched_zipaligned.apk'' \<and>
      os_path_exists (fs s') ''/w/app_patched_zipaligned.apk'')"
proof -
  have fr: "frame demo_state demo_state" by (simp add: frame_def)
  have inj: "inj (Inr :: string list \<Rightarrow> error + string list)" by (simp add: inj_def)
  have z: "zipaligned_apk demo_state = ''/w/app_patched_zipaligned.apk''" by (simp add: demo_fields)
  from run_result[OF demo_cut_29] obtain s1
    where c1: "cut (demo_env [50, 57]) demo_state = Some (True, s1)" and v1: "compile_sdk s1 = Some 29"
    by blast
  have t1: "trace s1 = trace demo_state @ trace s1" by (simp add: demo_fields)
  from signing_strategy_selected[OF c1 t1 v1]
  have p1: "map Inr (attempts (trace s1)) = pipeline_plan demo_state 29"
    and l1: "last (trace s1) = Completed ''/w/app_patched_zipaligned.apk''"
    and x1: "os_path_exists (fs s1) ''/w/app_patched_zipaligned.apk''"
    by (simp_all add: z)
  have "pipeline_plan demo_state 29 = map Inr
        [[''java'', ''-jar'', ''apktool_2.11.0.jar'', ''-f'', ''d'', ''/w/app.apk'', ''-o'', ''/w/app''],
         [''java'', ''-jar'', ''apktool_2.11.0.jar'', ''-f'', ''b'', ''/w/app'', ''-o'',
          ''/w/app_patched.apk'', ''--use-aapt2''],
         [''jarsigner'', ''-verbose'', ''-keystore'', ''debug.keystore'', ''-keypass'', ''android'',
          ''-storepass'', ''android'', ''-sigalg'', ''SHA1withRSA'', ''-digestalg'', ''SHA1'',
          ''/w/app_patched.apk'', ''androiddebugkey''],
         [''zipalign'', ''-p'', ''-f'', ''4'', ''/w/app_patched.apk'',
          ''/w/app_patched_zipaligned.apk'']]"
    by (simp add: pipeline_plan_def signing_strategy_def demo_commands[OF fr])
  with p1 have a1: "attempts (trace s1) =
        [[''java'', ''-jar'', ''apktool_2.11.0.jar'', ''-f'', ''d'', ''/w/app.apk'', ''-o'', ''/w/app''],
         [''java'', ''-jar'', ''apktool_2.11.0.jar'', ''-f'', ''b'', ''/w/app'', ''-o'',
          ''/w/app_patched.apk'', ''--use-aapt2''],
         [''jarsigner'', ''-verbose'', ''-keystore'', ''debug.keystore'', ''-keypass'', ''android'',
          ''-storepass'', ''android'', ''-sigalg'', ''SHA1withRSA'', ''-digestalg'', ''SHA1'',
          ''/w/app_patched.apk'', ''androiddebugkey''],
         [''zipalign'', ''-p'', ''-f'', ''4'', ''/w/app_patched.apk'',
          ''/w/app_patched_zipaligned.apk'']]"
    using map_injective[OF _ inj] by metis
  from run_result[OF demo_cut_30] obtain s2
    where c2: "cut (demo_env [51, 48]) demo_state = Some (True, s2)" and v2: "compile_sdk s2 = Some 30"
    by blast
  have t2: "trace s2 = trace demo_state @ trace s2" by (simp add: demo_fields)
  from signing_strategy_selected[OF c2 t2 v2]
  have p2: "map Inr (attempts (trace s2)) = pipeline_plan demo_state 30"
    and l2: "last (trace s2) = Completed ''/w/app_patched_zipaligned.apk''"
    and x2: "os_path_exists (fs s2) ''/w/app_patched_zipaligned.apk''"
    by (simp_all add: z)
  have "pipeline_plan demo_state 30 = map Inr
        [[''java'', ''-jar'', ''apktool_2.11.0.jar'', ''-f'', ''d'', ''/w/app.apk'', ''-o'', ''/w/app''],
         [''java'', ''-jar'', ''apktool_2.11.0.jar'', ''-f'', ''b'', ''/w/app'', ''-o'',
          ''/w/app_patched.apk'', ''--use-aapt2''],
         [''zipalign'', ''-p'', ''-f'', ''4'', ''/w/app_patched.apk'',
          ''/w/app_patched_zipaligned.apk''],
         [''apksigner'', ''sign'', ''--ks'', ''debug.keystore'', ''--ks-key-alias'',
          ''androiddebugkey'', ''--ks-pass'', ''pass:android'', ''/w/app_patched_zipaligned.apk'']]"
    by (simp add: pipeline_plan_def signing_strategy_def demo_commands[OF fr])
  with p2 have a2: "attempts (trace s2) =
        [[''java'', ''-jar'', ''apktool_2.11.0.jar'', ''-f'', ''d'', ''/w/app.apk'', ''-o'', ''/w/app''],
         [''java'', ''-jar'', ''apktool_2.11.0.jar'', ''-f'', ''b'', ''/w/app'', ''-o'',
          ''/w/app_patched.apk'', ''--use-aapt2''],
         [''zipalign'', ''-p'', ''-f'', ''4'', ''/w/app_patched.apk'',
          ''/w/app_patched_zipaligned.apk''],
         [''apksigner'', ''sign'', ''--ks'', ''debug.keystore'', ''--ks-key-alias'',
          ''androiddebugkey'', ''--ks-pass'', ''pass:android'', ''/w/app_patched_zipaligned.apk'']]"
    using map_injective[OF _ inj] by metis
  from c1 v1 a1 l1 x1 c2 v2 a2 l2 x2 show ?thesis by blast
qed

subsection \<open>Missing outputs\<close>

text \<open>
  Claim C4. When the repack command exits with status 0 and the intermediate archive is
  not there afterwards, the repack stage raises \<open>FileNotFoundError\<close>; likewise the align
  stage when the aligned archive is missing after the align command succeeded; and a
  run in which either happened reports failure.
\<close>

theorem missing_output_fails_run:
  "(repackage_command s = Inr c \<longrightarrow> run_stage e c s = Some (Inr (), s1) \<longrightarrow>
      \<not> os_path_exists (fs s1) (patched_apk s) \<longrightarrow>
      repackage_apk e s = Some (Inl (FileNotFoundError (patched_apk s)), s1)) \<and>
   (os_makedirs e (os_path_dirname (zipaligned_apk s)) (fs s) = Inr f1 \<longrightarrow>
      os_path_getsize f1 (patched_apk s) = Inr n \<longrightarrow>
      zipalign_command s = Inr c \<longrightarrow> run_stage e c (s\<lparr>fs := f1\<rparr>) = Some (Inr (), s2) \<longrightarrow>
      \<not> os_path_exists (fs s2) (zipaligned_apk s) \<longrightarrow>
      zipalign_apk e s = Some (Inl (FileNotFoundError (zipaligned_apk s)), s2)) \<and>
   (cut e s = Some (b, s') \<longrightarrow> trace s' = trace s @ evs \<longrightarrow> Ran c f 0 f' \<in> set evs \<longrightarrow>
      (repackage_command s = Inr c \<and> \<not> os_path_exists f' (patched_apk s) \<or>
       zipalign_command s = Inr c \<and> \<not> os_path_exists f' (zipaligned_apk s)) \<longrightarrow>
      \<not> b)"
  using repackage_apk_missing zipalign_apk_missing missing_output_not_success by blast

text \<open>Instances: tools that exit with status 0 and write nothing.\<close>

theorem missing_output_fails_run_witness:
  "repackage_apk idle_env demo_state =
     Some (Inl (FileNotFoundError ''/w/app_patched.apk''),
           demo_state\<lparr>trace := [Ran [''java'', ''-jar'', ''apktool_2.11.0.jar'', ''-f'', ''b'',
             ''/w/app'', ''-o'', ''/w/app_patched.apk'', ''--use-aapt2''] demo_fs 0 demo_fs]\<rparr>) \<and>
   (\<exists>s2. zipalign_apk idle_env (demo_state\<lparr>fs := demo_fs(''/w/app_patched.apk'' \<mapsto> File ''apk'')\<rparr>) =
           Some (Inl (FileNotFoundError ''/w/app_patched_zipaligned.apk''), s2)) \<and>
   (\<exists>s'. cut unpack_only_env demo_state = Some (False, s'))"
proof -
  let ?rep = "[''java'', ''-jar'', ''apktool_2.11.0.jar'', ''-f'', ''b'', ''/w/app'', ''-o'',
               ''/w/app_patched.apk'', ''--use-aapt2'']"
  let ?zip = "[''zipalign'', ''-p'', ''-f'', ''4'', ''/w/app_patched.apk'',
               ''/w/app_patched_zipaligned.apk'']"
  let ?s1 = "demo_state\<lparr>trace := [Ran ?rep demo_fs 0 demo_fs]\<rparr>"
  let ?t = "demo_state\<lparr>fs := demo_fs(''/w/app_patched.apk'' \<mapsto> File ''apk'')\<rparr>"
  have fr: "frame demo_state demo_state" by (simp add: frame_def)
  have frt: "frame demo_state ?t" by (simp add: frame_def)
  \<comment> \<open>the repack stage\<close>
  have rc: "repackage_command demo_state = Inr ?rep" by (rule demo_commands[OF fr])
  have r1: "run_stage idle_env ?rep demo_state = Some (Inr (), ?s1)"
    by (simp add: idle_env_def tool_env_run_ok demo_fields demo_state_def)
  have n1: "\<not> os_path_exists (fs ?s1) (patched_apk demo_state)"
    by (simp add: os_path_exists_def demo_fields demo_fs_def)
  \<comment> \<open>the align stage\<close>
  have "\<exists>f1. os_makedirs idle_env (os_path_dirname (zipaligned_apk ?t)) (fs ?t) = Inr f1 \<and>
          os_path_getsize f1 (patched_apk ?t) = Inr 3 \<and> \<not> os_path_exists f1 (zipaligned_apk ?t)"
    by (simp add: os_makedirs_def os_path_getsize_def os_path_exists_def os_path_isfile_def
          idle_env_def tool_env_fields demo_fields demo_paths demo_fs_def)
  then obtain f1 where mk: "os_makedirs idle_env (os_path_dirname (zipaligned_apk ?t)) (fs ?t) = Inr f1"
    and g1: "os_path_getsize f1 (patched_apk ?t) = Inr 3"
    and n2: "\<not> os_path_exists f1 (zipaligned_apk ?t)"
    by blast
  have zc: "zipalign_command ?t = Inr ?zip" by (rule demo_commands[OF frt])
  define s2 where "s2 = ?t\<lparr>fs := f1, trace := [Ran ?zip f1 0 f1]\<rparr>"
  have r2: "run_stage idle_env ?zip (?t\<lparr>fs := f1\<rparr>) = Some (Inr (), s2)"
    by (simp add: idle_env_def tool_env_run_ok demo_fields s2_def)
  have n3: "\<not> os_path_exists (fs s2) (zipaligned_apk ?t)" using n2 by (simp add: s2_def)
  \<comment> \<open>a whole run\<close>
  from unpack_only_run obtain s' f
    where run: "cut unpack_only_env demo_state = Some (False, s')"
      and ev: "Ran ?rep f 0 f \<in> set (trace s')"
      and nf: "\<not> os_path_exists f ''/w/app_patched.apk''"
    by blast
  have tr: "trace s' = trace demo_state @ trace s'" by (simp add: demo_fields)
  have nf': "\<not> os_path_exists f (patched_apk demo_state)" using nf by (simp add: demo_fields)
  have a: "repackage_apk idle_env demo_state =
             Some (Inl (FileNotFoundError (patched_apk demo_state)), ?s1)"
    using missing_output_fails_run[where s = demo_state and c = ?rep and e = idle_env and ?s1.0 = ?s1]
      rc r1 n1 by blast
  have b: "zipalign_apk idle_env ?t = Some (Inl (FileNotFoundError (zipaligned_apk ?t)), s2)"
    using missing_output_fails_run[where s = ?t and ?f1.0 = f1 and n = 3 and c = ?zip
        and e = idle_env and ?s2.0 = s2] mk g1 zc r2 n3 by blast
  have c: "\<not> False"
    using missing_output_fails_run[where s = demo_state and c = ?rep and e = unpack_only_env
        and b = False and s' = s' and evs = "trace s'" and f = f and f' = f] run tr ev rc nf'
    by blast
  from a b run show ?thesis by (auto simp add: demo_fields)
qed

subsection \<open>The extraction directory\<close>

text \<open>
  Claim C8. Whenever a run invokes the unpack tool, the file system it hands over has no
  extraction directory; if the directory existed at the start of the run, nothing
  inside it is left either; and every path outside it is as it was.
\<close>

theorem extraction_dir_replaced:
  assumes run: "cut e s = Some (b, s')" and tr: "trace s' = trace s @ evs"
      and ev: "Ran c f rc f' \<in> set evs" and dc: "decompile_command s = Inr c"
  shows "f (extraction_dir s) = None \<and>
         (\<forall>q. q \<noteq> extraction_dir s \<and> \<not> under (extraction_dir s) q \<longrightarrow> f q = fs s q) \<and>
         (os_path_exists (fs s) (extraction_dir s) \<longrightarrow> (\<forall>q. under (extraction_dir s) q \<longrightarrow> f q = None))"
proof -
  have stages_case: "cleared s f"
    if st: "stages e s = Some (r, s1)" and t1: "trace s1 = trace s @ evs1"
      and e1: "Ran c f rc f' \<in> set evs1" for r s1 evs1
    using st unfolding stages_def
  proof (cases rule: then_stage_cases)
    case (stop err)
    from decompile_apk_cleared[OF stop(1) t1 e1] show ?thesis .
  next
    case (go u s0)
    note a = decompile_apk_ok[OF go(1)]
    then obtain evs0 where fr: "frame s s0" and t0: "trace s0 = trace s @ evs0"
      unfolding step_ok_def by auto
    from stages_ok[OF st] obtain evsx where "trace s1 = trace s @ evsx" 
      unfolding stages_spec_def step_ok_def by auto
    have "\<exists>evs2. trace s1 = trace s0 @ evs2"
    proof -
      from go(2) show ?thesis
      proof (cases rule: silent_stages)
        case (stop err)
        then show ?thesis by simp
      next
        case (go s4 v)
        from repack_sign_ok[OF go(4) go(3)] go(2) show ?thesis unfolding step_ok_def by auto
      qed
    qed
    then obtain evs2 where t2: "trace s1 = trace s0 @ evs2" ..
    have e: "evs1 = evs0 @ evs2" using t0 t1 t2 by simp
    have "Ran c f rc f' \<notin> set evs2"
      using later_stages_not_decompile[OF go(2) t2] dc frame_commands(1)[OF fr] by auto
    then have "Ran c f rc f' \<in> set evs0" using e1 e by simp
    from decompile_apk_cleared[OF go(1) t0 this] show ?thesis .
  qed
  have "cleared s f"
    using run
  proof (cases rule: cut_cases)
    case refused
    then show ?thesis using tr ev by simp
  next
    case (aborted err)
    from stages_case[OF aborted(1) tr ev] show ?thesis .
  next
    case (finished s1 r)
    from stages_step[OF finished(1)] obtain evs1 where t1: "trace s1 = trace s @ evs1"
      unfolding step_ok_def by auto
    from verify_output_ok[OF finished(2)] obtain tail
      where t2: "trace s' = trace s1 @ tail" and q2: "attempts tail = []" by blast
    have e: "evs = evs1 @ tail" using t1 t2 tr by simp
    have "Ran c f rc f' \<notin> set tail" using ran_attempt[of c f rc f' tail] q2 by auto
    then have "Ran c f rc f' \<in> set evs1" using ev e by simp
    from stages_case[OF finished(1) t1 this] show ?thesis .
  qed
  then show ?thesis by (simp add: cleared_def)
qed

text \<open>An instance: a run that starts with an extraction directory left by an earlier run.\<close>

theorem extraction_dir_replaced_witness:
  "os_path_exists stale_fs ''/w/app'' \<and> os_path_exists stale_fs ''/w/app/old.txt'' \<and>
   (\<exists>s' f. cut failing_env (demo_state\<lparr>fs := stale_fs\<rparr>) = Some (False, s') \<and>
      Ran [''java'', ''-jar'', ''apktool_2.11.0.jar'', ''-f'', ''d'', ''/w/app.apk'', ''-o'', ''/w/app'']
        f 1 f \<in> set (trace s') \<and>
      f ''/w/app'' = None \<and> f ''/w/app/old.txt'' = None \<and>
      f ''/w/app.apk'' = stale_fs ''/w/app.apk'')"
proof -
  let ?s = "demo_state\<lparr>fs := stale_fs\<rparr>"
  let ?dec = "[''java'', ''-jar'', ''apktool_2.11.0.jar'', ''-f'', ''d'', ''/w/app.apk'', ''-o'', ''/w/app'']"
  have fr: "frame demo_state ?s" by (simp add: frame_def)
  have dc: "decompile_command ?s = Inr ?dec" by (rule demo_commands[OF fr])
  have x: "os_path_exists stale_fs ''/w/app''" "os_path_exists stale_fs ''/w/app/old.txt''"
    by (simp_all add: os_path_exists_def stale_fs_def)
  from stale_run obtain s' f
    where run: "cut failing_env ?s = Some (False, s')" and ev: "Ran ?dec f 1 f \<in> set (trace s')"
    by blast
  have tr: "trace s' = trace ?s @ trace s'" by (simp add: demo_fields)
  from extraction_dir_replaced[OF run tr ev dc]
  have 1: "f ''/w/app'' = None"
    and 2: "\<forall>q. q \<noteq> ''/w/app'' \<and> \<not> under ''/w/app'' q \<longrightarrow> f q = stale_fs q"
    and 3: "\<forall>q. under ''/w/app'' q \<longrightarrow> f q = None"
    using x by (simp_all add: demo_fields)
  from 3 have "f ''/w/app/old.txt'' = None" by (simp add: demo_under)
  moreover from 2 have "f ''/w/app.apk'' = stale_fs ''/w/app.apk''" by (simp add: demo_under)
  ultimately show ?thesis using x run ev 1 by blast
qed

subsection \<open>The working paths\<close>

text \<open>
  Claim C7. Construction computes the three working paths from the bundle's absolute
  path alone: with \<open>d\<close> its directory name and \<open>b\<close> its base name without the
  extension, the extraction directory is \<open>d/b\<close>, the intermediate archive
  \<open>d/b_patched.apk\<close> and the final archive \<open>d/b_patched_zipaligned.apk\<close>. The directory
  name of each is \<open>d\<close>, and a run of \<open>cut\<close> leaves all three (and the bundle path) as
  they were.
\<close>

theorem working_paths:
  assumes "Interceptra_init e a vb tp kf f tr = Inr s"
  shows "apk s = abspath e (expanduser e a) \<and>
         extraction_dir s = os_path_join (os_path_dirname (apk s))
                              (fst (os_path_splitext (os_path_basename (apk s)))) \<and>
         patched_apk s = os_path_join (os_path_dirname (apk s))
                           (fst (os_path_splitext (os_path_basename (apk s))) @ ''_patched.apk'') \<and>
         zipaligned_apk s = os_path_join (os_path_dirname (apk s))
                           (fst (os_path_splitext (os_path_basename (apk s))) @ ''_patched_zipaligned.apk'') \<and>
         os_path_dirname (extraction_dir s) = os_path_dirname (apk s) \<and>
         os_path_dirname (patched_apk s) = os_path_dirname (apk s) \<and>
         os_path_dirname (zipaligned_apk s) = os_path_dirname (apk s) \<and>
         (\<forall>e' f' tr' b s'. cut e' (s\<lparr>fs := f', trace := tr'\<rparr>) = Some (b, s') \<longrightarrow>
            apk s' = apk s \<and> extraction_dir s' = extraction_dir s \<and>
            patched_apk s' = patched_apk s \<and> zipaligned_apk s' = zipaligned_apk s)"
proof -
  note i = init_fields[OF assms]
  then have c: "constructed s" by simp
  have run: "apk s' = apk s \<and> extraction_dir s' = extraction_dir s \<and>
            patched_apk s' = patched_apk s \<and> zipaligned_apk s' = zipaligned_apk s"
    if "cut e' (s\<lparr>fs := f', trace := tr'\<rparr>) = Some (b, s')" for e' f' tr' b s'
    using cut_frame[OF that] by (simp add: frame_def)
  show ?thesis using i constructed_paths[OF c] c run by (simp add: constructed_def)
qed

text \<open>An instance: the bundle \<open>/w/app.apk\<close>.\<close>

theorem working_paths_witness:
  "Interceptra_init (demo_env [50, 57]) ''/w/app.apk'' False None False demo_fs [] = Inr demo_state \<and>
   apk demo_state = ''/w/app.apk'' \<and> extraction_dir demo_state = ''/w/app'' \<and>
   patched_apk demo_state = ''/w/app_patched.apk'' \<and>
   zipaligned_apk demo_state = ''/w/app_patched_zipaligned.apk'' \<and>
   os_path_dirname (extraction_dir demo_state) = ''/w'' \<and>
   os_path_dirname (patched_apk demo_state) = ''/w'' \<and>
   os_path_dirname (zipaligned_apk demo_state) = ''/w'' \<and>
   (\<exists>s'. cut (demo_env [50, 57]) demo_state = Some (True, s') \<and> apk s' = ''/w/app.apk'' \<and>
      extraction_dir s' = ''/w/app'' \<and> patched_apk s' = ''/w/app_patched.apk'' \<and>
      zipaligned_apk s' = ''/w/app_patched_zipaligned.apk'')"
proof -
  have i: "Interceptra_init (demo_env [50, 57]) ''/w/app.apk'' False None False demo_fs [] = Inr demo_state"
    unfolding demo_env_def by (rule demo_init)
  have a: "abspath (demo_env [50, 57]) (expanduser (demo_env [50, 57]) ''/w/app.apk'') = ''/w/app.apk''"
    by (simp add: demo_env_def tool_env_fields)
  have same: "demo_state\<lparr>fs := demo_fs, trace := []\<rparr> = demo_state" by (simp add: demo_state_def)
  from run_result[OF demo_cut_29] obtain s'
    where run: "cut (demo_env [50, 57]) (demo_state\<lparr>fs := demo_fs, trace := []\<rparr>) = Some (True, s')"
    unfolding same by blast
  note w = working_paths[OF i]
  from w have p: "apk demo_state = ''/w/app.apk''"
    "extraction_dir demo_state = ''/w/app''"
    "patched_apk demo_state = ''/w/app_patched.apk''"
    "zipaligned_apk demo_state = ''/w/app_patched_zipaligned.apk''"
    by (simp_all add: a demo_paths)
  from w have d: "os_path_dirname (extraction_dir demo_state) = ''/w''"
    "os_path_dirname (patched_apk demo_state) = ''/w''"
    "os_path_dirname (zipaligned_apk demo_state) = ''/w''"
    by (simp_all add: a demo_paths)
  from w run have "apk s' = apk demo_state \<and> extraction_dir s' = extraction_dir demo_state \<and>
      patched_apk s' = patched_apk demo_state \<and> zipaligned_apk s' = zipaligned_apk demo_state"
    by blast
  with p have k: "apk s' = ''/w/app.apk''" "extraction_dir s' = ''/w/app''"
    "patched_apk s' = ''/w/app_patched.apk''"
    "zipaligned_apk s' = ''/w/app_patched_zipaligned.apk''"
    by simp_all
  from run have "cut (demo_env [50, 57]) demo_state = Some (True, s')" by (simp add: same)
  with i p d k show ?thesis by blast
qed

subsection \<open>Cleanup\<close>



subsection \<open>The interface of \<open>cut\<close>\<close>

text \<open>
  Claim C10. When every external program that is launched exits, \<open>cut\<close> returns a
  boolean: there is no exceptional outcome, since the result type of \<open>cut\<close> has none
  and every exception of a stage is turned into \<open>False\<close>. The boolean is \<open>True\<close>
  exactly when the bundle is a regular file, every stage completed and the output was
  verified; then the final artifact exists.
\<close>

theorem cut_returns_boolean:
  assumes "processes_exit e"
  shows "\<exists>b s'. cut e s = Some (b, s') \<and>
           (b \<longleftrightarrow> os_path_isfile (fs s) (apk s) \<and>
              (\<exists>s1. stages e s = Some (Inr (zipaligned_apk s), s1) \<and>
                    verify_output e (zipaligned_apk s) s1 = Some (Inr True, s'))) \<and>
           (b \<longrightarrow> os_path_exists (fs s') (zipaligned_apk s))"
proof -
  from cut_total[OF assms, of s] obtain b s' where run: "cut e s = Some (b, s')" by blast
  have 1: "b \<longrightarrow> os_path_isfile (fs s) (apk s) \<and>
              (\<exists>s1. stages e s = Some (Inr (zipaligned_apk s), s1) \<and>
                    verify_output e (zipaligned_apk s) s1 = Some (Inr True, s')) \<and>
              os_path_exists (fs s') (zipaligned_apk s)"
    using run
  proof (cases rule: cut_cases)
    case refused
    then show ?thesis by simp
  next
    case (aborted err)
    then show ?thesis by simp
  next
    case (finished s1 r)
    have "b \<longrightarrow> os_path_isfile (fs s) (apk s)" using run by (auto simp add: cut_def split: if_splits)
    moreover have "b \<longrightarrow> os_path_exists (fs s') (zipaligned_apk s)"
      using verify_output_ok[OF finished(2)] finished(3) by simp
    ultimately show ?thesis using finished by auto
  qed
  have 2: "b" if a: "os_path_isfile (fs s) (apk s)"
    and st: "stages e s = Some (Inr (zipaligned_apk s), s1)"
    and vo: "verify_output e (zipaligned_apk s) s1 = Some (Inr True, s')" for s1
  proof -
    obtain m where m: "os_path_getsize (fs s) (apk s) = Inr m" using isfile_getsize[OF a] by blast
    have "cut e s = Some (True, s')" using a m st vo by (simp add: cut_def cut_try_def)
    then show ?thesis using run by simp
  qed
  have "cut e s = Some (b, s') \<and>
           (b \<longleftrightarrow> os_path_isfile (fs s) (apk s) \<and>
              (\<exists>s1. stages e s = Some (Inr (zipaligned_apk s), s1) \<and>
                    verify_output e (zipaligned_apk s) s1 = Some (Inr True, s'))) \<and>
           (b \<longrightarrow> os_path_exists (fs s') (zipaligned_apk s))"
    using run 1 2 by blast
  then show ?thesis by (intro exI[where x = b] exI[where x = s'])
qed

text \<open>Instances: a run that succeeds and a run whose first tool fails.\<close>

theorem cut_returns_boolean_witness:
  "processes_exit (demo_env [50, 57]) \<and> processes_exit failing_env \<and>
   (\<exists>s'. cut (demo_env [50, 57]) demo_state = Some (True, s') \<and>
      os_path_exists (fs s') ''/w/app_patched_zipaligned.apk'') \<and>
   (\<exists>b s'. cut failing_env demo_state = Some (b, s'))"
proof -
  have p: "processes_exit (demo_env [50, 57])" unfolding demo_env_def by (rule tool_env_exits)
  have q: "processes_exit failing_env" unfolding failing_env_def by (rule tool_env_exits)
  from cut_returns_boolean[OF p, of demo_state] obtain b s'
    where c: "cut (demo_env [50, 57]) demo_state = Some (b, s')"
      and x: "b \<longrightarrow> os_path_exists (fs s') (zipaligned_apk demo_state)"
    by blast
  from run_result[OF demo_cut_29] c have "b" by auto
  with c x have 1: "\<exists>s'. cut (demo_env [50, 57]) demo_state = Some (True, s') \<and>
      os_path_exists (fs s') ''/w/app_patched_zipaligned.apk''"
    by (auto simp add: demo_fields)
  from cut_returns_boolean[OF q, of demo_state]
  have 2: "\<exists>b s'. cut failing_env demo_state = Some (b, s')" by blast
  from p q 1 2 show ?thesis by blast
qed

subsection \<open>A bundle path that is not a regular file\<close>

text \<open>
  Claim C5, as amended. Construction does not look at the bundle: whether it fails does
  not depend on the input path. When the path is not an existing regular file, \<open>cut\<close> on
  the constructed object returns \<open>False\<close> at once and changes nothing, and the command
  line exits with status 1 without constructing the object.
\<close>

theorem missing_bundle_rejected_by_cut:
  "(isl (Interceptra_init e a vb tp kf f tr) = isl (Interceptra_init e a' vb tp kf f tr)) \<and>
   (Interceptra_init e a vb tp kf f tr = Inr s \<longrightarrow>
      \<not> os_path_isfile f (abspath e (expanduser e a)) \<longrightarrow> cut e' s = Some (False, s)) \<and>
   (handle_args argv = Inr args \<longrightarrow>
      \<not> os_path_isfile f (expanduser e (args_apk args)) \<longrightarrow> main e argv f = Some 1)"
proof -
  have 2: "cut e' s = Some (False, s)"
    if i: "Interceptra_init e a vb tp kf f tr = Inr s"
      and n: "\<not> os_path_isfile f (abspath e (expanduser e a))"
  proof -
    from init_fields[OF i] have "apk s = abspath e (expanduser e a)" "fs s = f" by simp_all
    then show ?thesis using n cut_refuses by simp
  qed
  have 3: "main e argv f = Some 1"
    if "handle_args argv = Inr args" "\<not> os_path_isfile f (expanduser e (args_apk args))"
    using that by (simp add: main_def Let_def)
  show ?thesis using init_isl_path 2 3 by blast
qed

text \<open>The claim as it is written fails: construction succeeds on a path that does not exist, and on a directory.\<close>

theorem construction_accepts_missing_bundle:
  "\<not> os_path_isfile demo_fs ''/w/missing.apk'' \<and>
   \<not> isl (Interceptra_init idle_env ''/w/missing.apk'' False None False demo_fs []) \<and>
   \<not> os_path_isfile demo_fs ''/w'' \<and>
   \<not> isl (Interceptra_init idle_env ''/w'' False None False demo_fs [])"
proof -
  have "\<not> isl (Interceptra_init idle_env ''/w/app.apk'' False None False demo_fs [])"
    by (simp add: idle_env_def demo_init)
  then have "\<not> isl (Interceptra_init idle_env a False None False demo_fs [])" for a
    using init_isl_path[of idle_env a False None False demo_fs "[]" "''/w/app.apk''"] by simp
  then show ?thesis by (simp add: os_path_isfile_def demo_fs_def)
qed

text \<open>An instance of the amended claim.\<close>

theorem missing_bundle_rejected_by_cut_witness:
  "\<not> os_path_isfile demo_fs ''/w/missing.apk'' \<and>
   (\<exists>s. Interceptra_init idle_env ''/w/missing.apk'' False None False demo_fs [] = Inr s \<and>
        cut idle_env s = Some (False, s)) \<and>
   handle_args [ApkOpt ''/w/missing.apk''] =
     Inr \<lparr>args_apk = ''/w/missing.apk'', args_verbose = False, args_keep_files = False,
          args_tools = None\<rparr> \<and>
   main idle_env [ApkOpt ''/w/missing.apk''] demo_fs = Some 1"
proof -
  let ?a = "\<lparr>args_apk = ''/w/missing.apk'', args_verbose = False, args_keep_files = False,
             args_tools = None\<rparr>"
  note t = missing_bundle_rejected_by_cut[where e = idle_env and a = "''/w/missing.apk''"
      and a' = "''/w/app.apk''" and vb = False and tp = None and kf = False and f = demo_fs
      and tr = "[]" and e' = idle_env and argv = "[ApkOpt ''/w/missing.apk'']" and args = ?a]
  have n: "\<not> os_path_isfile demo_fs ''/w/missing.apk''"
    by (simp add: os_path_isfile_def demo_fs_def)
  have n': "\<not> os_path_isfile demo_fs (abspath idle_env (expanduser idle_env ''/w/missing.apk''))"
    "\<not> os_path_isfile demo_fs (expanduser idle_env (args_apk ?a))"
    using n by (simp_all add: idle_env_def tool_env_fields)
  have h: "handle_args [ApkOpt ''/w/missing.apk''] = Inr ?a" by (simp add: handle_args_def)
  have "\<not> isl (Interceptra_init idle_env ''/w/app.apk'' False None False demo_fs [])"
    by (simp add: idle_env_def demo_init)
  with t have "\<not> isl (Interceptra_init idle_env ''/w/missing.apk'' False None False demo_fs [])"
    by simp
  then obtain s where i: "Interceptra_init idle_env ''/w/missing.apk'' False None False demo_fs [] = Inr s"
    by (cases "Interceptra_init idle_env ''/w/missing.apk'' False None False demo_fs []") simp_all
  from t[where s = s] i n' have "cut idle_env s = Some (False, s)" by blast
  moreover from t h n' have "main idle_env [ApkOpt ''/w/missing.apk''] demo_fs = Some 1" by blast
  ultimately show ?thesis using n i h by blast
qed

subsection \<open>The exit status\<close>

text \<open>
  Claim C6, as amended. When \<open>argparse\<close> ends the process, the status is 0 (help) or 2
  (an argument error). Otherwise the status, when the process exits, is 0 or 1: it is 1
  when the input is not a regular file, and it is 0 exactly when construction succeeds
  and \<open>cut\<close> returns \<open>True\<close>.
\<close>

theorem exit_status:
  "(handle_args argv = Inl code \<longrightarrow> main e argv f = Some code \<and> (code = 0 \<or> code = 2)) \<and>
   (handle_args argv = Inr args \<longrightarrow>
      (\<not> os_path_isfile f (expanduser e (args_apk args)) \<longrightarrow> main e argv f = Some 1) \<and>
      (main e argv f = Some status \<longrightarrow> status = 0 \<or> status = 1) \<and>
      (main e argv f = Some 0 \<longleftrightarrow>
         os_path_isfile f (expanduser e (args_apk args)) \<and>
         (\<exists>s s'. Interceptra_init e (expanduser e (args_apk args)) (args_verbose args)
                    (parse_tool_paths e (args_tools args) f) (args_keep_files args) f [] = Inr s \<and>
                 cut e s = Some (True, s'))))"
proof -
  have 1: "main e argv f = Some code \<and> (code = 0 \<or> code = 2)" if "handle_args argv = Inl code"
    using that handle_args_code[OF that] by (simp add: main_def)
  have 2: "(\<not> os_path_isfile f (expanduser e (args_apk args)) \<longrightarrow> main e argv f = Some 1) \<and>
      (main e argv f = Some status \<longrightarrow> status = 0 \<or> status = 1) \<and>
      (main e argv f = Some 0 \<longleftrightarrow>
         os_path_isfile f (expanduser e (args_apk args)) \<and>
         (\<exists>s s'. Interceptra_init e (expanduser e (args_apk args)) (args_verbose args)
                    (parse_tool_paths e (args_tools args) f) (args_keep_files args) f [] = Inr s \<and>
                 cut e s = Some (True, s')))"
    if h: "handle_args argv = Inr args"
  proof (cases "os_path_isfile f (expanduser e (args_apk args))")
    case False
    then show ?thesis using h by (auto simp add: main_def Let_def)
  next
    case True
    let ?i = "Interceptra_init e (expanduser e (args_apk args)) (args_verbose args)
                    (parse_tool_paths e (args_tools args) f) (args_keep_files args) f []"
    show ?thesis
    proof (cases ?i)
      case (Inl err)
      then show ?thesis using h True by (auto simp add: main_def Let_def)
    next
      case (Inr s)
      show ?thesis
      proof (cases "cut e s")
        case None
        then show ?thesis using h True Inr by (auto simp add: main_def Let_def)
      next
        case (Some x)
        obtain b s' where "x = (b, s')" by (cases x)
        then show ?thesis using h True Inr Some by (auto simp add: main_def Let_def)
      qed
    qed
  qed
  show ?thesis using 1 2 by blast
qed

text \<open>The claim as it is written fails: an argument error ends the process with status 2.\<close>

theorem argument_error_exits_2:
  "handle_args [] = Inl 2 \<and> main (demo_env [50, 57]) [] demo_fs = Some 2 \<and>
   main (demo_env [50, 57]) [ApkOpt ''/w/app.apk'', Unrecognized ''--fast''] demo_fs = Some 2"
  by (simp add: main_def handle_args_def)

text \<open>Instances of the amended claim: a successful run, a missing input, help, and a missing \<open>--apk\<close>.\<close>

theorem exit_status_witness:
  "handle_args [ApkOpt ''/w/app.apk''] =
     Inr \<lparr>args_apk = ''/w/app.apk'', args_verbose = False, args_keep_files = False,
          args_tools = None\<rparr> \<and>
   os_path_isfile demo_fs ''/w/app.apk'' \<and>
   main (demo_env [50, 57]) [ApkOpt ''/w/app.apk''] demo_fs = Some 0 \<and>
   handle_args [ApkOpt ''/w/missing.apk''] =
     Inr \<lparr>args_apk = ''/w/missing.apk'', args_verbose = False, args_keep_files = False,
          args_tools = None\<rparr> \<and>
   \<not> os_path_isfile demo_fs ''/w/missing.apk'' \<and>
   main (demo_env [50, 57]) [ApkOpt ''/w/missing.apk''] demo_fs = Some 1 \<and>
   handle_args [ApkOpt ''/w/app.apk'', HelpOpt] = Inl 0 \<and>
   main (demo_env [50, 57]) [ApkOpt ''/w/app.apk'', HelpOpt] demo_fs = Some 0 \<and>
   handle_args [VerboseOpt] = Inl 2 \<and>
   main (demo_env [50, 57]) [VerboseOpt] demo_fs = Some 2"
proof -
  let ?e = "demo_env [50, 57]"
  let ?a = "\<lparr>args_apk = ''/w/app.apk'', args_verbose = False, args_keep_files = False,
             args_tools = None\<rparr>"
  let ?m = "\<lparr>args_apk = ''/w/missing.apk'', args_verbose = False, args_keep_files = False,
             args_tools = None\<rparr>"
  have ha: "handle_args [ApkOpt ''/w/app.apk''] = Inr ?a" by (simp add: handle_args_def)
  have hm: "handle_args [ApkOpt ''/w/missing.apk''] = Inr ?m" by (simp add: handle_args_def)
  have hh: "handle_args [ApkOpt ''/w/app.apk'', HelpOpt] = Inl 0" by (simp add: handle_args_def)
  have hv: "handle_args [VerboseOpt] = Inl 2" by (simp add: handle_args_def)
  have xa: "expanduser ?e (args_apk ?a) = ''/w/app.apk''"
    and xm: "expanduser ?e (args_apk ?m) = ''/w/missing.apk''"
    by (simp_all add: demo_env_def tool_env_fields)
  have fa: "os_path_isfile demo_fs ''/w/app.apk''"
    and fm: "\<not> os_path_isfile demo_fs ''/w/missing.apk''"
    by (simp_all add: os_path_isfile_def demo_fs_def)
  have i: "Interceptra_init ?e (expanduser ?e (args_apk ?a)) (args_verbose ?a)
             (parse_tool_paths ?e (args_tools ?a) demo_fs) (args_keep_files ?a) demo_fs [] =
           Inr demo_state"
  proof -
    have "parse_tool_paths ?e (args_tools ?a) demo_fs = None" by (simp add: parse_tool_paths_def)
    moreover have "Interceptra_init ?e ''/w/app.apk'' False None False demo_fs [] = Inr demo_state"
      unfolding demo_env_def by (rule demo_init)
    moreover have "expanduser ?e ''/w/app.apk'' = ''/w/app.apk''"
      by (simp add: demo_env_def tool_env_fields)
    ultimately show ?thesis by simp
  qed
  from run_result[OF demo_cut_29] obtain s' where c: "cut ?e demo_state = Some (True, s')"
    by blast
  have 0: "main ?e [ApkOpt ''/w/app.apk''] demo_fs = Some 0"
    using exit_status[where argv = "[ApkOpt ''/w/app.apk'']" and args = ?a and e = ?e
        and f = demo_fs] ha fa i c
    unfolding xa by blast
  have 1: "main ?e [ApkOpt ''/w/missing.apk''] demo_fs = Some 1"
    using exit_status[where argv = "[ApkOpt ''/w/missing.apk'']" and args = ?m and e = ?e
        and f = demo_fs] hm fm
    unfolding xm by blast
  have 2: "main ?e [ApkOpt ''/w/app.apk'', HelpOpt] demo_fs = Some 0"
    using exit_status[where argv = "[ApkOpt ''/w/app.apk'', HelpOpt]" and code = 0 and e = ?e
        and f = demo_fs] hh by blast
  have 3: "main ?e [VerboseOpt] demo_fs = Some 2"
    using exit_status[where argv = "[VerboseOpt]" and code = 2 and e = ?e and f = demo_fs] hv
    by blast
  from ha fa 0 hm fm 1 hh 2 hv 3 show ?thesis by blast
qed

end
